theory Spec2Isabelle
  imports Complex_Main
begin

section \<open>Exceptions\<close>

text \<open>
  The Python exceptions that the modelled code can raise.  A function that may raise returns
  a value of type \<open>error + 'a\<close>, with \<open>Inl\<close> carrying the exception.
\<close>

datatype error = IndexError | ZeroDivisionError | TypeError | JSONDecodeError

section \<open>Time encoding (solver.py, lines 114--115)\<close>

text \<open>
  The clock-time strings are built by the f-string
  \<^verbatim>\<open>f"{8 + slot * 0.5:02.0f}:{int((slot * 0.5) % 1 * 60):02d}"\<close>.
  The floats that occur are half-integers, which binary64 represents exactly (for slots below
  \<open>2^52\<close> in magnitude), so they are modelled as rationals.  The presentation type \<open>.0f\<close>
  rounds to the nearest integer and resolves a tie to the even neighbour.
\<close>

definition digit_char :: "nat \<Rightarrow> char" where
  "digit_char d = ''0123456789'' ! d"

function decimal :: "nat \<Rightarrow> string" where
  "decimal n = (if n < 10 then [digit_char n] else decimal (n div 10) @ [digit_char (n mod 10)])"
  by pat_completeness auto
termination
  by (relation "measure id") auto

declare decimal.simps [simp del]

definition zfill2 :: "string \<Rightarrow> string" where
  "zfill2 s = replicate (2 - length s) CHR ''0'' @ s"

definition round_half_even :: "rat \<Rightarrow> int" where
  "round_half_even x =
     (let f = \<lfloor>x\<rfloor>; d = x - of_int f
      in if d < 1 / 2 then f else if 1 / 2 < d then f + 1 else if even f then f else f + 1)"

definition format_02_0f :: "rat \<Rightarrow> string" where
  \<comment> \<open>\<^verbatim>\<open>f"{x:02.0f}"\<close>: a negative value (also one that rounds to minus zero) prints its sign.\<close>
  "format_02_0f x =
     (if x < 0 then CHR ''-'' # decimal (nat (- round_half_even x))
      else zfill2 (decimal (nat (round_half_even x))))"

definition format_02d :: "int \<Rightarrow> string" where
  \<comment> \<open>\<^verbatim>\<open>f"{n:02d}"\<close>\<close>
  "format_02d n = (if n < 0 then CHR ''-'' # decimal (nat (- n)) else zfill2 (decimal (nat n)))"

definition float_mod_1 :: "rat \<Rightarrow> rat" where
  \<comment> \<open>\<^verbatim>\<open>x % 1\<close> on floats: the result takes the sign of the divisor.\<close>
  "float_mod_1 x = x - of_int \<lfloor>x\<rfloor>"

definition py_int :: "rat \<Rightarrow> int" where
  \<comment> \<open>\<^verbatim>\<open>int(x)\<close> truncates towards zero.\<close>
  "py_int x = (if 0 \<le> x then \<lfloor>x\<rfloor> else \<lceil>x\<rceil>)"

definition time_str :: "int \<Rightarrow> string" where
  "time_str slot =
     format_02_0f (8 + of_int slot * (1 / 2)) @ '':'' @
     format_02d (py_int (float_mod_1 (of_int slot * (1 / 2)) * 60))"

section \<open>Records of the scheduling engine (solver.py)\<close>

text \<open>
  Only the columns that \<open>solve_timetable\<close> reads are modelled.  A course row's
  \<open>faculty_pool\<close> is read with \<^verbatim>\<open>course.get('faculty_pool', [])\<close>, so the column may be
  absent (\<open>None\<close>).  When the column is there, the cell holds a list of identifiers, or Python's
  \<open>None\<close>, or the \<open>NaN\<close> that pandas writes for a missing value.  A selection's \<open>section\<close> and
  \<open>faculty_id\<close> are read with \<^verbatim>\<open>.get\<close> too.
  The fields of rooms, faculty, selections, requests and sessions carry a prefix because two
  records cannot share a field name.
\<close>

datatype pool_cell = PoolNone | PoolNaN | PoolList "int list"

record course =
  code :: string
  name :: string
  program :: string
  c_section :: string
  duration_slots :: int
  room_type :: string
  faculty_pool :: "pool_cell option"

record room =
  r_id :: int
  r_name :: string
  r_type :: string

record faculty =
  f_id :: int
  f_name :: string

record constraints =
  days :: "string list"
  slots_per_day :: int

record selection =
  student_id :: int
  course_code :: string
  sel_section :: "string option"
  faculty_id :: "int option"

text \<open>An entry of the list \<open>scheduled_courses\<close>.\<close>

record request =
  rq_student_id :: "int option"
  rq_course_code :: string
  rq_section :: string
  rq_faculty_id :: "int option"
  rq_course :: course

text \<open>A row of the result (\<open>solution_data\<close>).\<close>

record session =
  s_program :: string
  s_section :: string
  s_course :: string
  s_faculty :: string
  s_room :: string
  s_day :: string
  s_start :: int
  s_end :: int
  s_start_time :: string
  s_end_time :: string

section \<open>Catalog index\<close>

text \<open>
  \<^verbatim>\<open>course_map = {row['code']: row for _, row in courses_df.iterrows()}\<close>: a later row with the
  same code replaces an earlier one.
\<close>

definition course_map :: "course list \<Rightarrow> (string \<rightharpoonup> course)" where
  "course_map courses_df = fold (\<lambda>row m. m(code row \<mapsto> row)) courses_df Map.empty"

text \<open>The loop of lines 30--35: rooms grouped by type, each group in insertion order.\<close>

definition rooms_by_type :: "room list \<Rightarrow> (string \<rightharpoonup> room list)" where
  "rooms_by_type rooms_df =
     fold (\<lambda>room m. case m (r_type room) of
                       None \<Rightarrow> m(r_type room \<mapsto> [room])
                     | Some rs \<Rightarrow> m(r_type room \<mapsto> rs @ [room]))
          rooms_df Map.empty"

section \<open>Request list (lines 38--66)\<close>

definition request_of_selection :: "(string \<rightharpoonup> course) \<Rightarrow> selection \<Rightarrow> request list" where
  "request_of_selection cm sel =
     (case cm (course_code sel) of
        None \<Rightarrow> []
      | Some c \<Rightarrow>
          [\<lparr>rq_student_id = Some (student_id sel),
            rq_course_code = course_code sel,
            rq_section = (case sel_section sel of None \<Rightarrow> ''A'' | Some s \<Rightarrow> s),
            rq_faculty_id = faculty_id sel,
            rq_course = c\<rparr>])"

definition request_of_course :: "course \<Rightarrow> request" where
  "request_of_course c =
     \<lparr>rq_student_id = None, rq_course_code = code c, rq_section = c_section c,
      rq_faculty_id = None, rq_course = c\<rparr>"

definition scheduled_courses :: "course list \<Rightarrow> selection list option \<Rightarrow> request list" where
  "scheduled_courses courses_df selections_df =
     (case selections_df of
        None \<Rightarrow> map request_of_course courses_df
      | Some sels \<Rightarrow>
          if sels \<noteq> [] then concat (map (request_of_selection (course_map courses_df)) sels)
          else map request_of_course courses_df)"

section \<open>Sequential placement (lines 70--122)\<close>

definition py_index :: "'a list \<Rightarrow> int \<Rightarrow> error + 'a" where
  \<comment> \<open>\<^verbatim>\<open>xs[i]\<close>: an index below zero counts from the end of the list.\<close>
  "py_index xs i =
     (if 0 \<le> i \<and> i < int (length xs) then Inr (xs ! nat i)
      else if i < 0 \<and> - int (length xs) \<le> i then Inr (xs ! nat (int (length xs) + i))
      else Inl IndexError)"

definition iloc0 :: "'a list \<Rightarrow> error + 'a" where
  \<comment> \<open>\<^verbatim>\<open>df.iloc[0]\<close>\<close>
  "iloc0 df = (case df of [] \<Rightarrow> Inl IndexError | row # _ \<Rightarrow> Inr row)"

definition resolve_room :: "room list \<Rightarrow> (string \<rightharpoonup> room list) \<Rightarrow> string \<Rightarrow> error + room" where
  "resolve_room rooms_df rbt rt =
     (case rbt rt of
        Some (r # _) \<Rightarrow> Inr r
      | _ \<Rightarrow> iloc0 rooms_df)"

definition get_faculty_pool :: "course \<Rightarrow> pool_cell" where
  \<comment> \<open>\<^verbatim>\<open>course.get('faculty_pool', [])\<close>\<close>
  "get_faculty_pool c = (case faculty_pool c of None \<Rightarrow> PoolList [] | Some cell \<Rightarrow> cell)"

definition truthy :: "pool_cell \<Rightarrow> bool" where
  \<comment> \<open>The truth value of the cell: \<open>None\<close> and the empty list are false, \<open>NaN\<close> is true.\<close>
  "truthy cell = (case cell of PoolNone \<Rightarrow> False | PoolNaN \<Rightarrow> True | PoolList ids \<Rightarrow> ids \<noteq> [])"

text \<open>
  Lines 94--99.  The test is \<^verbatim>\<open>faculty_pool and len(faculty_pool) > 0\<close>: on a cell that is
  true, \<open>len\<close> is called, and \<open>len\<close> of \<open>NaN\<close> raises \<open>TypeError\<close>.
\<close>

definition resolve_faculty :: "faculty list \<Rightarrow> course \<Rightarrow> error + faculty" where
  "resolve_faculty faculty_df c =
     (let pool = get_faculty_pool c
      in if truthy pool then
           (case pool of
              PoolList ids \<Rightarrow>
                if length ids > 0 then iloc0 (filter (\<lambda>f. f_id f = ids ! 0) faculty_df)
                else iloc0 faculty_df
            | _ \<Rightarrow> Inl TypeError)
         else iloc0 faculty_df)"

record sched_state =
  solution_data :: "session list"
  current_slot :: int

text \<open>One iteration of the loop of lines 74--119.\<close>

definition schedule_one ::
  "constraints \<Rightarrow> room list \<Rightarrow> faculty list \<Rightarrow> sched_state \<Rightarrow> request \<Rightarrow> error + sched_state"
where
  "schedule_one cons rooms_df faculty_df st course_info =
     (let c = rq_course course_info; spd = slots_per_day cons
      in if spd = 0 then Inl ZeroDivisionError
         else
           let day_idx0 = current_slot st div spd;
               slot_in_day = current_slot st mod spd;
               wrap = (int (length (days cons)) \<le> day_idx0);
               day_idx = (if wrap then 0 else day_idx0);
               cur = (if wrap then slot_in_day else current_slot st)
           in case resolve_room rooms_df (rooms_by_type rooms_df) (room_type c) of
                Inl e \<Rightarrow> Inl e
              | Inr rm \<Rightarrow>
                 (case resolve_faculty faculty_df c of
                    Inl e \<Rightarrow> Inl e
                  | Inr fac \<Rightarrow>
                     (let duration = duration_slots c; end_slot = cur + duration - 1
                      in case py_index (days cons) day_idx of
                           Inl e \<Rightarrow> Inl e
                         | Inr d \<Rightarrow>
                            Inr \<lparr>solution_data = solution_data st @
                                   [\<lparr>s_program = program c,
                                     s_section = rq_section course_info,
                                     s_course = name c,
                                     s_faculty = f_name fac,
                                     s_room = r_name rm,
                                     s_day = d,
                                     s_start = slot_in_day,
                                     s_end = end_slot mod spd,
                                     s_start_time = time_str slot_in_day,
                                     s_end_time = time_str (end_slot mod spd)\<rparr>],
                                 current_slot = cur + duration + 1\<rparr>)))"

fun schedule_all ::
  "constraints \<Rightarrow> room list \<Rightarrow> faculty list \<Rightarrow> sched_state \<Rightarrow> request list \<Rightarrow> error + sched_state"
where
  "schedule_all cons rooms_df faculty_df st [] = Inr st"
| "schedule_all cons rooms_df faculty_df st (course_info # rest) =
     (case schedule_one cons rooms_df faculty_df st course_info of
        Inl e \<Rightarrow> Inl e
      | Inr st' \<Rightarrow> schedule_all cons rooms_df faculty_df st' rest)"

text \<open>The student collection is a parameter of the function, and is never read.\<close>

definition solve_timetable ::
  "'students \<Rightarrow> course list \<Rightarrow> room list \<Rightarrow> faculty list \<Rightarrow> constraints \<Rightarrow>
   selection list option \<Rightarrow> error + session list"
where
  "solve_timetable students_df courses_df rooms_df faculty_df cons selections_df =
     (case schedule_all cons rooms_df faculty_df \<lparr>solution_data = [], current_slot = 0\<rparr>
             (scheduled_courses courses_df selections_df) of
        Inl e \<Rightarrow> Inl e
      | Inr st \<Rightarrow> Inr (solution_data st))"

text \<open>
  The relation between a request and the result row that one iteration of the loop appends
  for it, whatever the value of the slot counter.
\<close>

definition emitted_for ::
  "constraints \<Rightarrow> room list \<Rightarrow> faculty list \<Rightarrow> request \<Rightarrow> session \<Rightarrow> bool"
where
  "emitted_for cons rooms_df faculty_df ci sess \<longleftrightarrow>
     s_program sess = program (rq_course ci) \<and>
     s_section sess = rq_section ci \<and>
     s_course sess = name (rq_course ci) \<and>
     (case resolve_room rooms_df (rooms_by_type rooms_df) (room_type (rq_course ci)) of
        Inl e \<Rightarrow> False
      | Inr rm \<Rightarrow> s_room sess = r_name rm) \<and>
     (case resolve_faculty faculty_df (rq_course ci) of
        Inl e \<Rightarrow> False
      | Inr fac \<Rightarrow> s_faculty sess = f_name fac) \<and>
     s_day sess \<in> set (days cons) \<and>
     s_start sess mod slots_per_day cons = s_start sess \<and>
     s_end sess mod slots_per_day cons = s_end sess \<and>
     s_start_time sess = time_str (s_start sess) \<and>
     s_end_time sess = time_str (s_end sess)"

section \<open>The clock time the specification asks for\<close>

text \<open>
  This definition follows the words of the specification, not the code: the clock time
  \<open>HH:MM\<close> that lies \<open>slot\<close> times thirty minutes after 08:00, each part written with
  two digits.  It is the reference that \<open>time_str\<close> is compared with.
\<close>

definition spec_clock_time :: "int \<Rightarrow> string" where
  "spec_clock_time slot =
     zfill2 (decimal (nat ((8 * 60 + slot * 30) div 60))) @ '':'' @
     zfill2 (decimal (nat ((8 * 60 + slot * 30) mod 60)))"

section \<open>Sample data\<close>

text \<open>
  The scenario of the specification: two days of four slots, a laboratory and a lecture hall,
  one faculty member, and two courses of two slots each.  Course \<open>A\<close> names its faculty pool,
  course \<open>B\<close> has none.  A third course asks for a room type that no room has.
\<close>

definition sample_cons :: constraints where
  "sample_cons = \<lparr>days = [''Mon'', ''Tue''], slots_per_day = 4\<rparr>"

definition sample_course_a :: course where
  "sample_course_a =
     \<lparr>code = ''A'', name = ''Algorithms'', program = ''CS'', c_section = ''A'',
      duration_slots = 2, room_type = ''Lab'', faculty_pool = Some (PoolList [1])\<rparr>"

definition sample_course_b :: course where
  "sample_course_b =
     \<lparr>code = ''B'', name = ''Biology'', program = ''BT'', c_section = ''A'',
      duration_slots = 2, room_type = ''Hall'', faculty_pool = None\<rparr>"

definition sample_course_c :: course where
  "sample_course_c =
     \<lparr>code = ''C'', name = ''Ceramics'', program = ''FA'', c_section = ''B'',
      duration_slots = 3, room_type = ''Studio'', faculty_pool = Some (PoolList [1])\<rparr>"

definition sample_rooms :: "room list" where
  "sample_rooms =
     [\<lparr>r_id = 1, r_name = ''H1'', r_type = ''Hall''\<rparr>,
      \<lparr>r_id = 2, r_name = ''L1'', r_type = ''Lab''\<rparr>,
      \<lparr>r_id = 3, r_name = ''L2'', r_type = ''Lab''\<rparr>]"

definition sample_faculty :: "faculty list" where
  "sample_faculty = [\<lparr>f_id = 1, f_name = ''Dr. Smith''\<rparr>]"

definition sample_sel :: "int \<Rightarrow> string \<Rightarrow> int option \<Rightarrow> selection" where
  "sample_sel sid c fid =
     \<lparr>student_id = sid, course_code = c, sel_section = Some ''S1'', faculty_id = fid\<rparr>"

section \<open>Cell values and JSON text (table_utils.py)\<close>

text \<open>
  A cell of a table holds a Python object.  The objects modelled are the ones JSON can
  write: \<open>None\<close>, booleans, integers, strings (as lists of code points below 256), lists, and
  dictionaries with string keys, kept in insertion order.  Floats are not modelled.
\<close>

datatype pyval =
    PyNone
  | PyBool bool
  | PyInt int
  | PyStr string
  | PyList "pyval list"
  | PyDict "(string \<times> pyval) list"

text \<open>
  \<^verbatim>\<open>json.dumps\<close> with its default arguments: the separators are \<open>", "\<close> and \<open>": "\<close>, and a
  string is written between double quotes with every character outside \<open>' '..'~'\<close>, the
  double quote and the backslash escaped (\<open>ensure_ascii\<close>).
\<close>

definition hex_digit :: "nat \<Rightarrow> char" where
  "hex_digit d = ''0123456789abcdef'' ! d"

definition hex4 :: "nat \<Rightarrow> string" where
  "hex4 n = map hex_digit [n div 4096 mod 16, n div 256 mod 16, n div 16 mod 16, n mod 16]"

definition json_escape :: "char \<Rightarrow> string" where
  "json_escape c =
     (let n = (of_char c :: nat)
      in if c = CHR 0x22 then [CHR 0x5C, CHR 0x22]
         else if c = CHR 0x5C then [CHR 0x5C, CHR 0x5C]
         else if n = 10 then [CHR 0x5C, CHR ''n'']
         else if n = 13 then [CHR 0x5C, CHR ''r'']
         else if n = 9 then [CHR 0x5C, CHR ''t'']
         else if n = 8 then [CHR 0x5C, CHR ''b'']
         else if n = 12 then [CHR 0x5C, CHR ''f'']
         else if 32 \<le> n \<and> n \<le> 126 then [c]
         else CHR 0x5C # CHR ''u'' # hex4 n)"

definition json_quote :: "string \<Rightarrow> string" where
  "json_quote s = CHR 0x22 # concat (map json_escape s) @ [CHR 0x22]"

fun join :: "string \<Rightarrow> string list \<Rightarrow> string" where
  "join sep [] = []"
| "join sep [x] = x"
| "join sep (x # y # ys) = x @ sep @ join sep (y # ys)"

definition int_str :: "int \<Rightarrow> string" where
  "int_str i = (if i < 0 then CHR ''-'' # decimal (nat (- i)) else decimal (nat i))"

fun json_dumps :: "pyval \<Rightarrow> string" where
  "json_dumps PyNone = ''null''"
| "json_dumps (PyBool b) = (if b then ''true'' else ''false'')"
| "json_dumps (PyInt i) = int_str i"
| "json_dumps (PyStr s) = json_quote s"
| "json_dumps (PyList xs) = ''['' @ join '', '' (map json_dumps xs) @ '']''"
| "json_dumps (PyDict kvs) =
     ''{'' @ join '', '' (map (\<lambda>kv. json_quote (fst kv) @ '': '' @ json_dumps (snd kv)) kvs) @ ''}''"


text \<open>
  \<^verbatim>\<open>json.loads\<close> belongs to the Python library, not to the repository.  The functions below
  that decode take the decoder as a parameter \<open>loads\<close>, and the theorems about them hold for
  every decoder that meets the hypotheses they state.  The decoder \<open>json_loads\<close> defined here is
  a reference implementation for the JSON texts of the values modelled: it refuses a number
  with a fraction or an exponent and the tokens \<open>NaN\<close> and \<open>Infinity\<close>, where Python returns a
  float, and an escape \<open>\u\<close> above \<open>00ff\<close>, which no string of the model can hold.  It is used
  to evaluate the functions on concrete cells, and it is shown below to invert \<open>json_dumps\<close>.
  The recursion of the scanner is bounded by the length of the text.
\<close>

definition is_ws :: "char \<Rightarrow> bool" where
  "is_ws c \<longleftrightarrow> c = CHR '' '' \<or> c = CHR 0x09 \<or> c = CHR 0x0A \<or> c = CHR 0x0D"

definition skip_ws :: "string \<Rightarrow> string" where
  "skip_ws s = dropWhile is_ws s"

definition is_digit :: "char \<Rightarrow> bool" where
  "is_digit c \<longleftrightarrow> 48 \<le> (of_char c :: nat) \<and> (of_char c :: nat) \<le> 57"

definition digit_val :: "char \<Rightarrow> nat" where
  "digit_val c = of_char c - 48"

definition digits_val :: "string \<Rightarrow> nat" where
  "digits_val ds = foldl (\<lambda>n c. 10 * n + digit_val c) 0 ds"

definition hex_val :: "char \<Rightarrow> nat option" where
  "hex_val c =
     (let n = (of_char c :: nat)
      in if 48 \<le> n \<and> n \<le> 57 then Some (n - 48)
         else if 97 \<le> n \<and> n \<le> 102 then Some (n - 87)
         else if 65 \<le> n \<and> n \<le> 70 then Some (n - 55)
         else None)"

definition hex4_val :: "char \<Rightarrow> char \<Rightarrow> char \<Rightarrow> char \<Rightarrow> nat option" where
  "hex4_val a b c d =
     (case (hex_val a, hex_val b, hex_val c, hex_val d) of
        (Some x, Some y, Some z, Some w) \<Rightarrow> Some (4096 * x + 256 * y + 16 * z + w)
      | _ \<Rightarrow> None)"

definition unescape :: "char \<Rightarrow> char option" where
  "unescape e =
     (if e = CHR 0x22 then Some (CHR 0x22)
      else if e = CHR 0x5C then Some (CHR 0x5C)
      else if e = CHR ''/'' then Some (CHR ''/'')
      else if e = CHR ''b'' then Some (CHR 0x08)
      else if e = CHR ''f'' then Some (CHR 0x0C)
      else if e = CHR ''n'' then Some (CHR 0x0A)
      else if e = CHR ''r'' then Some (CHR 0x0D)
      else if e = CHR ''t'' then Some (CHR 0x09)
      else None)"

fun scanstring :: "string \<Rightarrow> (string \<times> string) option" where
  "scanstring [] = None"
| "scanstring (c # cs) =
     (if c = CHR 0x22 then Some ([], cs)
      else if c = CHR 0x5C then
        (case cs of
           [] \<Rightarrow> None
         | e # r \<Rightarrow>
            if e = CHR ''u'' then
              (case r of
                 a # b # c' # d # r' \<Rightarrow>
                   (case hex4_val a b c' d of
                      None \<Rightarrow> None
                    | Some n \<Rightarrow>
                        if n < 256 then
                          (case scanstring r' of
                             None \<Rightarrow> None
                           | Some (str, rest) \<Rightarrow> Some (char_of n # str, rest))
                        else None)
               | _ \<Rightarrow> None)
            else
              (case unescape e of
                 None \<Rightarrow> None
               | Some x \<Rightarrow>
                  (case scanstring r of
                     None \<Rightarrow> None
                   | Some (str, rest) \<Rightarrow> Some (x # str, rest))))
      else if (of_char c :: nat) < 32 then None
      else (case scanstring cs of
              None \<Rightarrow> None
            | Some (str, rest) \<Rightarrow> Some (c # str, rest)))"

definition scan_int :: "string \<Rightarrow> (int \<times> string) option" where
  "scan_int s =
     (let neg = (case s of c # _ \<Rightarrow> c = CHR ''-'' | [] \<Rightarrow> False);
          body = (if neg then tl s else s);
          ds = (case body of
                  c # r \<Rightarrow> if c = CHR ''0'' then [c] else takeWhile is_digit body
                | [] \<Rightarrow> []);
          rest = drop (length ds) body
      in if ds = [] then None
         else if (case rest of c # _ \<Rightarrow> c = CHR ''.'' \<or> c = CHR ''e'' \<or> c = CHR ''E'' | [] \<Rightarrow> False)
           then None
         else Some (if neg then - int (digits_val ds) else int (digits_val ds), rest))"

fun dict_put :: "(string \<times> pyval) list \<Rightarrow> string \<Rightarrow> pyval \<Rightarrow> (string \<times> pyval) list" where
  "dict_put [] k v = [(k, v)]"
| "dict_put ((k', v') # kvs) k v = (if k' = k then (k', v) # kvs else (k', v') # dict_put kvs k v)"

fun scan_value :: "nat \<Rightarrow> string \<Rightarrow> (pyval \<times> string) option"
  and scan_array :: "nat \<Rightarrow> string \<Rightarrow> (pyval list \<times> string) option"
  and scan_object :: "nat \<Rightarrow> string \<Rightarrow> ((string \<times> pyval) list \<times> string) option"
where
  "scan_value 0 s = None"
| "scan_value (Suc n) s =
     (case s of
        [] \<Rightarrow> None
      | c # r \<Rightarrow>
          if c = CHR 0x22 then
            (case scanstring r of None \<Rightarrow> None | Some (str, rest) \<Rightarrow> Some (PyStr str, rest))
          else if c = CHR ''['' then
            (case skip_ws r of
               [] \<Rightarrow> None
             | c' # r' \<Rightarrow>
                 if c' = CHR '']'' then Some (PyList [], r')
                 else (case scan_array n (c' # r') of
                         None \<Rightarrow> None
                       | Some (xs, rest) \<Rightarrow> Some (PyList xs, rest)))
          else if c = CHR ''{'' then
            (case skip_ws r of
               [] \<Rightarrow> None
             | c' # r' \<Rightarrow>
                 if c' = CHR ''}'' then Some (PyDict [], r')
                 else (case scan_object n (c' # r') of
                         None \<Rightarrow> None
                       | Some (kvs, rest) \<Rightarrow> Some (PyDict (foldl (\<lambda>d kv. dict_put d (fst kv) (snd kv)) [] kvs), rest)))
          else if take 4 s = ''null'' then Some (PyNone, drop 4 s)
          else if take 4 s = ''true'' then Some (PyBool True, drop 4 s)
          else if take 5 s = ''false'' then Some (PyBool False, drop 5 s)
          else (case scan_int s of None \<Rightarrow> None | Some (i, rest) \<Rightarrow> Some (PyInt i, rest)))"
| "scan_array 0 s = None"
| "scan_array (Suc n) s =
     (case scan_value n s of
        None \<Rightarrow> None
      | Some (v, rest) \<Rightarrow>
         (case skip_ws rest of
            [] \<Rightarrow> None
          | c # r \<Rightarrow>
              if c = CHR '']'' then Some ([v], r)
              else if c = CHR '','' then
                (case scan_array n (skip_ws r) of
                   None \<Rightarrow> None
                 | Some (vs, rest') \<Rightarrow> Some (v # vs, rest'))
              else None))"
| "scan_object 0 s = None"
| "scan_object (Suc n) s =
     (case s of
        [] \<Rightarrow> None
      | q # r0 \<Rightarrow>
         if q \<noteq> CHR 0x22 then None
         else
          (case scanstring r0 of
             None \<Rightarrow> None
           | Some (k, r1) \<Rightarrow>
              (case skip_ws r1 of
                 [] \<Rightarrow> None
               | c # r2 \<Rightarrow>
                  if c \<noteq> CHR '':'' then None
                  else
                   (case scan_value n (skip_ws r2) of
                      None \<Rightarrow> None
                    | Some (v, r3) \<Rightarrow>
                       (case skip_ws r3 of
                          [] \<Rightarrow> None
                        | c' # r4 \<Rightarrow>
                           if c' = CHR ''}'' then Some ([(k, v)], r4)
                           else if c' = CHR '','' then
                             (case scan_object n (skip_ws r4) of
                                None \<Rightarrow> None
                              | Some (kvs, rest) \<Rightarrow> Some ((k, v) # kvs, rest))
                           else None)))))"

definition json_loads :: "string \<Rightarrow> error + pyval" where
  "json_loads s =
     (case scan_value (Suc (length s)) (skip_ws s) of
        None \<Rightarrow> Inl JSONDecodeError
      | Some (v, rest) \<Rightarrow> if skip_ws rest = [] then Inr v else Inl JSONDecodeError)"


text \<open>
  A Python dictionary has each key once; \<open>distinct_keys\<close> says so of the association lists
  of a value.  What follows a value in a text written by \<open>json_dumps\<close> is the end of the text,
  a comma or a closing bracket (\<open>delimited\<close>).
\<close>

fun distinct_keys :: "pyval \<Rightarrow> bool" where
  "distinct_keys (PyList xs) = (\<forall>x \<in> set xs. distinct_keys x)"
| "distinct_keys (PyDict kvs) = (distinct (map fst kvs) \<and> (\<forall>kv \<in> set kvs. distinct_keys (snd kv)))"
| "distinct_keys _ = True"

definition delimited :: "string \<Rightarrow> bool" where
  "delimited rest \<longleftrightarrow>
     (case rest of [] \<Rightarrow> True | c # _ \<Rightarrow> c = CHR '','' \<or> c = CHR '']'' \<or> c = CHR ''}'')"

section \<open>JSON-column coercion (table_utils.py, lines 122--137)\<close>

text \<open>The two lambdas applied to the cells of a column.\<close>

definition startswith :: "string \<Rightarrow> string \<Rightarrow> bool" where
  "startswith s prefix \<longleftrightarrow> take (length prefix) s = prefix"

definition parse_cell :: "(string \<Rightarrow> error + pyval) \<Rightarrow> pyval \<Rightarrow> error + pyval" where
  "parse_cell loads x =
     (case x of
        PyStr s \<Rightarrow> if startswith s ''['' then loads s else Inr x
      | _ \<Rightarrow> Inr x)"

definition serialize_cell :: "pyval \<Rightarrow> pyval" where
  "serialize_cell x =
     (case x of
        PyList _ \<Rightarrow> PyStr (json_dumps x)
      | PyDict _ \<Rightarrow> PyStr (json_dumps x)
      | _ \<Rightarrow> x)"

definition is_scalar :: "pyval \<Rightarrow> bool" where
  "is_scalar x = (case x of PyList _ \<Rightarrow> False | PyDict _ \<Rightarrow> False | _ \<Rightarrow> True)"

text \<open>
  \<^verbatim>\<open>Series.apply\<close>: the function is applied to the cells in order, and the first exception
  ends the call.
\<close>

fun apply_cells :: "('a \<Rightarrow> error + 'b) \<Rightarrow> 'a list \<Rightarrow> error + 'b list" where
  "apply_cells f [] = Inr []"
| "apply_cells f (x # xs) =
     (case f x of
        Inl e \<Rightarrow> Inl e
      | Inr y \<Rightarrow> (case apply_cells f xs of Inl e \<Rightarrow> Inl e | Inr ys \<Rightarrow> Inr (y # ys)))"

text \<open>
  A table is a list of labelled columns; the labels are taken to be distinct, as
  \<^verbatim>\<open>read_csv\<close> makes them.  Tables are mutable objects: a store holds them, and a reference
  to a table is its index in the store.  \<^verbatim>\<open>dataframe.copy()\<close> allocates a new table, and
  \<^verbatim>\<open>df[col] = ...\<close> updates the table that \<open>df\<close> refers to.  Both functions return the
  store together with their result, so that the state after a raised exception is visible too.
  Cells are values in this model: the copy shares the Python objects of its cells with the
  original, and neither function mutates a cell object.
\<close>

type_synonym dataframe = "(string \<times> pyval list) list"

type_synonym store = "dataframe list"

definition columns :: "dataframe \<Rightarrow> string list" where
  "columns df = map fst df"

definition get_column :: "dataframe \<Rightarrow> string \<Rightarrow> pyval list" where
  "get_column df col = (case map_of df col of None \<Rightarrow> [] | Some cells \<Rightarrow> cells)"

definition set_column :: "dataframe \<Rightarrow> string \<Rightarrow> pyval list \<Rightarrow> dataframe" where
  "set_column df col cells = map (\<lambda>(n, old). if n = col then (n, cells) else (n, old)) df"

definition copy :: "store \<Rightarrow> nat \<Rightarrow> store \<times> nat" where
  "copy st dataframe = (st @ [st ! dataframe], length st)"

fun parse_loop :: "(string \<Rightarrow> error + pyval) \<Rightarrow> store \<Rightarrow> nat \<Rightarrow> string list \<Rightarrow> store \<times> (error + nat)" where
  "parse_loop loads st df [] = (st, Inr df)"
| "parse_loop loads st df (col # json_columns) =
     (if col \<in> set (columns (st ! df)) then
        (case apply_cells (parse_cell loads) (get_column (st ! df) col) of
           Inl e \<Rightarrow> (st, Inl e)
         | Inr cells \<Rightarrow> parse_loop loads (st[df := set_column (st ! df) col cells]) df json_columns)
      else parse_loop loads st df json_columns)"

definition parse_json_columns ::
  "(string \<Rightarrow> error + pyval) \<Rightarrow> store \<Rightarrow> nat \<Rightarrow> string list \<Rightarrow> store \<times> (error + nat)" where
  "parse_json_columns loads st dataframe json_columns =
     (case copy st dataframe of (st', df) \<Rightarrow> parse_loop loads st' df json_columns)"

fun serialize_loop :: "store \<Rightarrow> nat \<Rightarrow> string list \<Rightarrow> store \<times> nat" where
  "serialize_loop st df [] = (st, df)"
| "serialize_loop st df (col # json_columns) =
     (if col \<in> set (columns (st ! df)) then
        serialize_loop (st[df := set_column (st ! df) col (map serialize_cell (get_column (st ! df) col))])
          df json_columns
      else serialize_loop st df json_columns)"

definition serialize_json_columns :: "store \<Rightarrow> nat \<Rightarrow> string list \<Rightarrow> store \<times> nat" where
  "serialize_json_columns st dataframe json_columns =
     (case copy st dataframe of (st', df) \<Rightarrow> serialize_loop st' df json_columns)"

text \<open>A table with a JSON column \<open>skills\<close>, stored as text, and a column of structured cells.\<close>

definition sample_frame :: dataframe where
  "sample_frame =
     [(''id'', [PyInt 1, PyInt 2]),
      (''name'', [PyStr ''Smith'', PyStr ''Jones'']),
      (''skills'', [PyStr (json_dumps (PyList [PyStr ''Algebra'', PyStr ''Logic''])), PyStr ''[]'']),
      (''notes'', [PyDict [(''a'', PyInt 1)], PyNone])]"

section \<open>Lemmas on the catalog index and on resource resolution\<close>

lemma rooms_by_type_fold:
  "fold (\<lambda>room m. case m (r_type room) of
                       None \<Rightarrow> m(r_type room \<mapsto> [room])
                     | Some rs \<Rightarrow> m(r_type room \<mapsto> rs @ [room])) rooms_df m rt =
   (if filter (\<lambda>r. r_type r = rt) rooms_df = [] then m rt
    else Some ((case m rt of None \<Rightarrow> [] | Some rs \<Rightarrow> rs) @ filter (\<lambda>r. r_type r = rt) rooms_df))"
  by (induction rooms_df arbitrary: m) (auto split: option.splits)

lemma rooms_by_type_eq:
  "rooms_by_type rooms_df rt =
     (if filter (\<lambda>r. r_type r = rt) rooms_df = [] then None
      else Some (filter (\<lambda>r. r_type r = rt) rooms_df))"
  unfolding rooms_by_type_def by (simp add: rooms_by_type_fold)

lemma resolve_room_eq:
  "resolve_room rooms_df (rooms_by_type rooms_df) rt =
     (case filter (\<lambda>r. r_type r = rt) rooms_df of r # _ \<Rightarrow> Inr r | [] \<Rightarrow> iloc0 rooms_df)"
  by (simp add: resolve_room_def rooms_by_type_eq split: list.splits)

lemma find_append_case:
  "List.find P (xs @ ys) = (case List.find P xs of Some x \<Rightarrow> Some x | None \<Rightarrow> List.find P ys)"
  by (induction xs) auto

lemma course_map_fold:
  "fold (\<lambda>row m. m(code row \<mapsto> row)) courses_df m k =
     (case List.find (\<lambda>c. code c = k) (rev courses_df) of Some c \<Rightarrow> Some c | None \<Rightarrow> m k)"
  by (induction courses_df arbitrary: m) (auto simp: find_append_case split: option.splits)

lemma course_map_eq:
  "course_map courses_df k = List.find (\<lambda>c. code c = k) (rev courses_df)"
  unfolding course_map_def by (simp add: course_map_fold split: option.splits)

lemma course_map_None: "course_map courses_df k = None \<longleftrightarrow> k \<notin> code ` set courses_df"
  by (auto simp: course_map_eq find_None_iff)

lemma schedule_one_Inr:
  assumes "schedule_one cons rooms_df faculty_df st ci = Inr st'"
  shows "slots_per_day cons \<noteq> 0 \<and>
    (\<exists>rm fac d.
       resolve_room rooms_df (rooms_by_type rooms_df) (room_type (rq_course ci)) = Inr rm \<and>
       resolve_faculty faculty_df (rq_course ci) = Inr fac \<and>
       (let spd = slots_per_day cons; cs = current_slot st;
            wrap = (int (length (days cons)) \<le> cs div spd);
            cur = (if wrap then cs mod spd else cs)
        in py_index (days cons) (if wrap then 0 else cs div spd) = Inr d \<and>
           st' = \<lparr>solution_data = solution_data st @
                   [\<lparr>s_program = program (rq_course ci),
                     s_section = rq_section ci,
                     s_course = name (rq_course ci),
                     s_faculty = f_name fac,
                     s_room = r_name rm,
                     s_day = d,
                     s_start = cs mod spd,
                     s_end = (cur + duration_slots (rq_course ci) - 1) mod spd,
                     s_start_time = time_str (cs mod spd),
                     s_end_time = time_str ((cur + duration_slots (rq_course ci) - 1) mod spd)\<rparr>],
                  current_slot = cur + duration_slots (rq_course ci) + 1\<rparr>))"
  using assms
  by (auto simp: schedule_one_def Let_def split: if_splits sum.splits)

lemma py_index_mem: "py_index xs i = Inr x \<Longrightarrow> x \<in> set xs"
  by (auto simp: py_index_def split: if_splits)

lemma py_index_0: "xs \<noteq> [] \<Longrightarrow> py_index xs 0 = Inr (xs ! 0)"
  by (simp add: py_index_def)

lemma py_index_nonneg: "0 \<le> i \<Longrightarrow> i < int (length xs) \<Longrightarrow> py_index xs i = Inr (xs ! nat i)"
  by (simp add: py_index_def)

lemma iloc0_Inr: "df \<noteq> [] \<Longrightarrow> iloc0 df = Inr (hd df)"
  by (cases df) (simp_all add: iloc0_def)

lemma iloc0_Inl: "iloc0 [] = Inl IndexError"
  by (simp add: iloc0_def)

lemma find_as_filter:
  "List.find P xs = (case filter P xs of [] \<Rightarrow> None | x # _ \<Rightarrow> Some x)"
  by (induction xs) auto

lemma resolve_room_find:
  "rooms_df \<noteq> [] \<Longrightarrow>
   resolve_room rooms_df (rooms_by_type rooms_df) rt =
     Inr (case List.find (\<lambda>r. r_type r = rt) rooms_df of Some r \<Rightarrow> r | None \<Rightarrow> hd rooms_df)"
  by (simp add: resolve_room_eq find_as_filter iloc0_Inr split: list.splits)

lemma resolve_room_empty: "resolve_room [] (rooms_by_type []) rt = Inl IndexError"
  by (simp add: resolve_room_eq iloc0_def)

lemma resolve_faculty_empty_pool:
  "get_faculty_pool c = PoolList [] \<or> get_faculty_pool c = PoolNone \<Longrightarrow>
   resolve_faculty faculty_df c = iloc0 faculty_df"
  by (auto simp: resolve_faculty_def truthy_def)

lemma resolve_faculty_nan:
  "get_faculty_pool c = PoolNaN \<Longrightarrow> resolve_faculty faculty_df c = Inl TypeError"
  by (simp add: resolve_faculty_def truthy_def)

lemma resolve_faculty_missing:
  "get_faculty_pool c = PoolList (fid # rest) \<Longrightarrow> fid \<notin> f_id ` set faculty_df \<Longrightarrow>
   resolve_faculty faculty_df c = Inl IndexError"
proof -
  assume a: "get_faculty_pool c = PoolList (fid # rest)" "fid \<notin> f_id ` set faculty_df"
  then have "filter (\<lambda>f. f_id f = fid) faculty_df = []"
    by (auto simp: filter_empty_conv)
  with a show ?thesis by (simp add: resolve_faculty_def truthy_def iloc0_def)
qed

lemma resolve_faculty_present:
  "get_faculty_pool c = PoolList (fid # rest) \<Longrightarrow> fid \<in> f_id ` set faculty_df \<Longrightarrow>
   \<exists>fac. resolve_faculty faculty_df c = Inr fac \<and> fac \<in> set faculty_df \<and> f_id fac = fid"
proof -
  assume a: "get_faculty_pool c = PoolList (fid # rest)" "fid \<in> f_id ` set faculty_df"
  then obtain x xs where fx: "filter (\<lambda>f. f_id f = fid) faculty_df = x # xs"
    by (cases "filter (\<lambda>f. f_id f = fid) faculty_df") (auto simp: filter_empty_conv)
  then have "x \<in> set (filter (\<lambda>f. f_id f = fid) faculty_df)" by simp
  then have "x \<in> set faculty_df \<and> f_id x = fid" by simp
  with a fx show ?thesis by (simp add: resolve_faculty_def truthy_def iloc0_def)
qed

lemma schedule_one_fails_room:
  "rooms_df = [] \<Longrightarrow> \<exists>e. schedule_one cons rooms_df faculty_df st ci = Inl e"
  by (simp add: schedule_one_def Let_def resolve_room_empty)

lemma schedule_one_fails_faculty:
  "resolve_faculty faculty_df (rq_course ci) = Inl e0 \<Longrightarrow>
   \<exists>e. schedule_one cons rooms_df faculty_df st ci = Inl e"
  by (simp add: schedule_one_def Let_def split: sum.splits)

lemma schedule_all_fails:
  "ci \<in> set reqs \<Longrightarrow> (\<And>st. \<exists>e. schedule_one cons rooms_df faculty_df st ci = Inl e) \<Longrightarrow>
   \<exists>e. schedule_all cons rooms_df faculty_df st reqs = Inl e"
proof (induction reqs arbitrary: st)
  case Nil
  then show ?case by simp
next
  case (Cons r rs)
  show ?case
  proof (cases "schedule_one cons rooms_df faculty_df st r")
    case (Inl e)
    then show ?thesis by simp
  next
    case (Inr st')
    from Cons.prems(2) [of st] Inr have "ci \<noteq> r" by auto
    with Cons.prems(1) have "ci \<in> set rs" by simp
    with Cons.IH Cons.prems(2) Inr show ?thesis by simp
  qed
qed

section \<open>Lemmas on the placement loop\<close>

lemma schedule_one_emits:
  assumes "schedule_one cons rooms_df faculty_df st ci = Inr st'"
  shows "\<exists>sess. solution_data st' = solution_data st @ [sess] \<and>
     emitted_for cons rooms_df faculty_df ci sess \<and>
     s_start sess = current_slot st mod slots_per_day cons"
proof -
  from schedule_one_Inr [OF assms] obtain rm fac d where
    r: "resolve_room rooms_df (rooms_by_type rooms_df) (room_type (rq_course ci)) = Inr rm"
    and f: "resolve_faculty faculty_df (rq_course ci) = Inr fac"
    and rest: "(let spd = slots_per_day cons; cs = current_slot st;
            wrap = (int (length (days cons)) \<le> cs div spd);
            cur = (if wrap then cs mod spd else cs)
        in py_index (days cons) (if wrap then 0 else cs div spd) = Inr d \<and>
           st' = \<lparr>solution_data = solution_data st @
                   [\<lparr>s_program = program (rq_course ci),
                     s_section = rq_section ci,
                     s_course = name (rq_course ci),
                     s_faculty = f_name fac,
                     s_room = r_name rm,
                     s_day = d,
                     s_start = cs mod spd,
                     s_end = (cur + duration_slots (rq_course ci) - 1) mod spd,
                     s_start_time = time_str (cs mod spd),
                     s_end_time = time_str ((cur + duration_slots (rq_course ci) - 1) mod spd)\<rparr>],
                  current_slot = cur + duration_slots (rq_course ci) + 1\<rparr>)"
    by blast
  from rest have "d \<in> set (days cons)"
    by (auto simp: Let_def dest: py_index_mem)
  with r f rest show ?thesis
    by (auto simp: Let_def emitted_for_def)
qed

lemma schedule_all_emits:
  "schedule_all cons rooms_df faculty_df st reqs = Inr st' \<Longrightarrow>
   \<exists>new. solution_data st' = solution_data st @ new \<and>
     list_all2 (emitted_for cons rooms_df faculty_df) reqs new"
proof (induction reqs arbitrary: st)
  case Nil
  then show ?case by simp
next
  case (Cons ci rest)
  from Cons.prems obtain st1 where
    one: "schedule_one cons rooms_df faculty_df st ci = Inr st1"
    and all: "schedule_all cons rooms_df faculty_df st1 rest = Inr st'"
    by (auto split: sum.splits)
  from schedule_one_emits [OF one] obtain sess where
    sd: "solution_data st1 = solution_data st @ [sess]"
    and ok: "emitted_for cons rooms_df faculty_df ci sess"
    by blast
  from Cons.IH [OF all] obtain new where
    n: "solution_data st' = solution_data st1 @ new"
    and l: "list_all2 (emitted_for cons rooms_df faculty_df) rest new"
    by blast
  from sd n have "solution_data st' = solution_data st @ (sess # new)" by simp
  moreover from ok l have "list_all2 (emitted_for cons rooms_df faculty_df) (ci # rest) (sess # new)"
    by simp
  ultimately show ?case by blast
qed

lemma solve_timetable_emits:
  assumes "solve_timetable students_df courses_df rooms_df faculty_df cons selections_df = Inr out"
  shows "list_all2 (emitted_for cons rooms_df faculty_df)
           (scheduled_courses courses_df selections_df) out"
proof -
  from assms obtain st' where
    a: "schedule_all cons rooms_df faculty_df \<lparr>solution_data = [], current_slot = 0\<rparr>
          (scheduled_courses courses_df selections_df) = Inr st'"
    and o: "out = solution_data st'"
    by (auto simp: solve_timetable_def split: sum.splits)
  from schedule_all_emits [OF a] o show ?thesis by simp
qed

lemma schedule_one_ignores_ids:
  assumes "rq_section ci = rq_section ci'" and "rq_course ci = rq_course ci'"
  shows "schedule_one cons rooms_df faculty_df st ci = schedule_one cons rooms_df faculty_df st ci'"
  unfolding schedule_one_def assms ..

lemma schedule_all_ignores_ids:
  "list_all2 (\<lambda>ci ci'. rq_section ci = rq_section ci' \<and> rq_course ci = rq_course ci') reqs reqs' \<Longrightarrow>
   schedule_all cons rooms_df faculty_df st reqs = schedule_all cons rooms_df faculty_df st reqs'"
proof (induction reqs reqs' arbitrary: st rule: list_all2_induct)
  case Nil
  then show ?case by simp
next
  case (Cons ci reqs ci' reqs')
  from Cons.hyps(1)
  have "schedule_one cons rooms_df faculty_df st ci = schedule_one cons rooms_df faculty_df st ci'"
    by (intro schedule_one_ignores_ids) simp_all
  with Cons.IH show ?case by (simp split: sum.split)
qed

lemma requests_agree:
  "map course_code sels1 = map course_code sels2 \<Longrightarrow> map sel_section sels1 = map sel_section sels2 \<Longrightarrow>
   list_all2 (\<lambda>ci ci'. rq_section ci = rq_section ci' \<and> rq_course ci = rq_course ci')
     (concat (map (request_of_selection cm) sels1)) (concat (map (request_of_selection cm) sels2))"
proof (induction sels1 arbitrary: sels2)
  case Nil
  then show ?case by simp
next
  case (Cons a sels1)
  from Cons.prems obtain b rest where s2: "sels2 = b # rest" by (cases sels2) auto
  with Cons.prems have hd: "course_code a = course_code b" "sel_section a = sel_section b"
    and tl: "map course_code sels1 = map course_code rest" "map sel_section sels1 = map sel_section rest"
    by auto
  from hd have "list_all2 (\<lambda>ci ci'. rq_section ci = rq_section ci' \<and> rq_course ci = rq_course ci')
     (request_of_selection cm a) (request_of_selection cm b)"
    by (simp add: request_of_selection_def split: option.splits)
  with Cons.IH [OF tl] s2 show ?case
    by (simp add: list_all2_appendI)
qed

text \<open>
  Claim C10.  The output of the engine does not depend on the \<open>student_id\<close> and
  \<open>faculty_id\<close> fields of the selections: two selection lists that agree row by row on
  \<open>course_code\<close> and \<open>section\<close> give the same result, be it a list of sessions or an
  exception.
\<close>
theorem output_independent_of_student_and_faculty_id:
  assumes "map course_code sels1 = map course_code sels2"
    and "map sel_section sels1 = map sel_section sels2"
  shows "solve_timetable students_df courses_df rooms_df faculty_df cons (Some sels1) =
         solve_timetable students_df courses_df rooms_df faculty_df cons (Some sels2)"
proof (cases "sels1 = []")
  case True
  with assms have "sels2 = []" by simp
  with True show ?thesis by simp
next
  case False
  with assms have ne: "sels2 \<noteq> []" by auto
  from requests_agree [OF assms] False ne
  have "list_all2 (\<lambda>ci ci'. rq_section ci = rq_section ci' \<and> rq_course ci = rq_course ci')
     (scheduled_courses courses_df (Some sels1)) (scheduled_courses courses_df (Some sels2))"
    by (simp add: scheduled_courses_def)
  from schedule_all_ignores_ids [OF this] show ?thesis
    by (simp add: solve_timetable_def)
qed

lemma schedule_one_resolved:
  assumes "slots_per_day cons \<noteq> 0"
    and "resolve_room rooms_df (rooms_by_type rooms_df) (room_type (rq_course ci)) = Inr rm"
    and "resolve_faculty faculty_df (rq_course ci) = Inr fac"
    and "py_index (days cons)
           (if int (length (days cons)) \<le> current_slot st div slots_per_day cons then 0
            else current_slot st div slots_per_day cons) = Inr d"
    and "cur = (if int (length (days cons)) \<le> current_slot st div slots_per_day cons
                then current_slot st mod slots_per_day cons else current_slot st)"
  shows "schedule_one cons rooms_df faculty_df st ci =
     Inr \<lparr>solution_data = solution_data st @
            [\<lparr>s_program = program (rq_course ci),
              s_section = rq_section ci,
              s_course = name (rq_course ci),
              s_faculty = f_name fac,
              s_room = r_name rm,
              s_day = d,
              s_start = current_slot st mod slots_per_day cons,
              s_end = (cur + duration_slots (rq_course ci) - 1) mod slots_per_day cons,
              s_start_time = time_str (current_slot st mod slots_per_day cons),
              s_end_time = time_str ((cur + duration_slots (rq_course ci) - 1) mod slots_per_day cons)\<rparr>],
          current_slot = cur + duration_slots (rq_course ci) + 1\<rparr>"
  using assms by (simp add: schedule_one_def Let_def)

text \<open>
  Claim C5.  When \<open>current_slot div slots_per_day\<close> reaches the number of days, the iteration
  sets the day index to 0 and the counter to \<open>current_slot mod slots_per_day\<close>: the request
  is emitted on \<open>days[0]\<close>, it starts at that slot, and the counter handed to the rest of the
  loop is the reset value plus the duration plus one.  The room and the faculty member of the
  request are taken to resolve and \<open>days\<close> to be non-empty, since otherwise the iteration
  raises and emits nothing.
\<close>
theorem day_wrap_resets_counter:
  assumes "slots_per_day cons \<noteq> 0"
    and "int (length (days cons)) \<le> current_slot st div slots_per_day cons"
    and "days cons \<noteq> []"
    and "resolve_room rooms_df (rooms_by_type rooms_df) (room_type (rq_course ci)) = Inr rm"
    and "resolve_faculty faculty_df (rq_course ci) = Inr fac"
  shows "\<exists>sess.
      schedule_one cons rooms_df faculty_df st ci =
        Inr \<lparr>solution_data = solution_data st @ [sess],
             current_slot = current_slot st mod slots_per_day cons + duration_slots (rq_course ci) + 1\<rparr> \<and>
      s_day sess = days cons ! 0 \<and>
      s_start sess = current_slot st mod slots_per_day cons \<and>
      s_end sess =
        (current_slot st mod slots_per_day cons + duration_slots (rq_course ci) - 1)
          mod slots_per_day cons \<and>
      schedule_all cons rooms_df faculty_df st (ci # rest) =
        schedule_all cons rooms_df faculty_df
          \<lparr>solution_data = solution_data st @ [sess],
           current_slot = current_slot st mod slots_per_day cons + duration_slots (rq_course ci) + 1\<rparr>
          rest"
proof -
  from assms(2,3) have
    "py_index (days cons)
       (if int (length (days cons)) \<le> current_slot st div slots_per_day cons then 0
        else current_slot st div slots_per_day cons) = Inr (days cons ! 0)"
    by (simp add: py_index_0)
  from schedule_one_resolved [OF assms(1) assms(4) assms(5) this refl] assms(2)
  show ?thesis by simp
qed

lemma list_all2_setD2:
  "list_all2 P xs ys \<Longrightarrow> y \<in> set ys \<Longrightarrow> \<exists>x \<in> set xs. P x y"
  by (induction rule: list_all2_induct) auto

text \<open>
  Claim C9.  With a positive \<open>slots_per_day\<close>, every session of a result has its start slot
  and its end slot in \<open>[0, slots_per_day)\<close> and a day name taken from \<open>days\<close>, at every
  position of the request list, also after the day index has wrapped.
\<close>
theorem emitted_sessions_in_grid:
  assumes "0 < slots_per_day cons"
    and "solve_timetable students_df courses_df rooms_df faculty_df cons selections_df = Inr out"
    and "sess \<in> set out"
  shows "0 \<le> s_start sess \<and> s_start sess < slots_per_day cons \<and>
         0 \<le> s_end sess \<and> s_end sess < slots_per_day cons \<and>
         s_day sess \<in> set (days cons)"
proof -
  from list_all2_setD2 [OF solve_timetable_emits [OF assms(2)] assms(3)]
  obtain ci where "emitted_for cons rooms_df faculty_df ci sess" by blast
  then have s: "s_start sess mod slots_per_day cons = s_start sess"
    and e: "s_end sess mod slots_per_day cons = s_end sess"
    and d: "s_day sess \<in> set (days cons)"
    by (simp_all add: emitted_for_def)
  from assms(1) have
    "0 \<le> s_start sess mod slots_per_day cons" "s_start sess mod slots_per_day cons < slots_per_day cons"
    "0 \<le> s_end sess mod slots_per_day cons" "s_end sess mod slots_per_day cons < slots_per_day cons"
    by simp_all
  with s e d show ?thesis by simp
qed


text \<open>
  Claim C6.  If at least one request is accepted and the room collection is empty, or some
  request's course has an empty faculty pool (an empty list, also for an absent column, or
  \<open>None\<close>) while the faculty collection is empty, or the first identifier of some request's
  faculty pool matches no faculty record, the engine raises and returns no result list.
\<close>
theorem missing_resource_raises:
  assumes "scheduled_courses courses_df selections_df \<noteq> []"
    and "rooms_df = [] \<or>
         (\<exists>ci \<in> set (scheduled_courses courses_df selections_df).
             faculty_df = [] \<and>
             (get_faculty_pool (rq_course ci) = PoolList [] \<or>
              get_faculty_pool (rq_course ci) = PoolNone)) \<or>
         (\<exists>ci \<in> set (scheduled_courses courses_df selections_df).
             \<exists>fid rest. get_faculty_pool (rq_course ci) = PoolList (fid # rest) \<and>
                        fid \<notin> f_id ` set faculty_df)"
  shows "\<exists>e. solve_timetable students_df courses_df rooms_df faculty_df cons selections_df = Inl e"
proof -
  have "\<exists>ci \<in> set (scheduled_courses courses_df selections_df).
          \<forall>st. \<exists>e. schedule_one cons rooms_df faculty_df st ci = Inl e"
    using assms(2)
  proof (elim disjE bexE conjE exE)
    assume "rooms_df = []"
    moreover from assms(1) obtain ci where "ci \<in> set (scheduled_courses courses_df selections_df)"
      by (cases "scheduled_courses courses_df selections_df") auto
    ultimately show ?thesis
      by (blast intro: schedule_one_fails_room)
  next
    fix ci
    assume ci: "ci \<in> set (scheduled_courses courses_df selections_df)"
      and "faculty_df = []" "get_faculty_pool (rq_course ci) = PoolList []"
    then have "resolve_faculty faculty_df (rq_course ci) = Inl IndexError"
      by (simp add: resolve_faculty_empty_pool iloc0_Inl)
    with ci show ?thesis
      by (blast intro: schedule_one_fails_faculty)
  next
    fix ci
    assume ci: "ci \<in> set (scheduled_courses courses_df selections_df)"
      and "faculty_df = []" "get_faculty_pool (rq_course ci) = PoolNone"
    then have "resolve_faculty faculty_df (rq_course ci) = Inl IndexError"
      by (simp add: resolve_faculty_empty_pool iloc0_Inl)
    with ci show ?thesis
      by (blast intro: schedule_one_fails_faculty)
  next
    fix ci fid rest
    assume ci: "ci \<in> set (scheduled_courses courses_df selections_df)"
      and p: "get_faculty_pool (rq_course ci) = PoolList (fid # rest)"
      and nf: "fid \<notin> f_id ` set faculty_df"
    from p nf have "resolve_faculty faculty_df (rq_course ci) = Inl IndexError"
      by (rule resolve_faculty_missing)
    with ci show ?thesis
      by (blast intro: schedule_one_fails_faculty)
  qed
  then obtain ci where ci: "ci \<in> set (scheduled_courses courses_df selections_df)"
    and f: "\<And>st. \<exists>e. schedule_one cons rooms_df faculty_df st ci = Inl e"
    by blast
  from schedule_all_fails [OF ci f] obtain e where
    "schedule_all cons rooms_df faculty_df \<lparr>solution_data = [], current_slot = 0\<rparr>
       (scheduled_courses courses_df selections_df) = Inl e"
    by blast
  then show ?thesis by (simp add: solve_timetable_def)
qed

lemma resolve_faculty_ok:
  assumes "faculty_df \<noteq> []"
    and "get_faculty_pool c = PoolList [] \<or> get_faculty_pool c = PoolNone \<or>
         (\<exists>fid rest. get_faculty_pool c = PoolList (fid # rest) \<and> fid \<in> f_id ` set faculty_df)"
  shows "\<exists>fac. resolve_faculty faculty_df c = Inr fac"
proof (cases "get_faculty_pool c = PoolList [] \<or> get_faculty_pool c = PoolNone")
  case True
  with assms(1) show ?thesis
    by (simp add: resolve_faculty_empty_pool iloc0_Inr)
next
  case False
  with assms(2) obtain fid rest where
    p: "get_faculty_pool c = PoolList (fid # rest)" and m: "fid \<in> f_id ` set faculty_df"
    by blast
  from resolve_faculty_present [OF p m] show ?thesis by blast
qed

text \<open>
  Claim C1, amended.  Two days of four slots, a room of the required type for each of the two
  courses, a non-empty faculty collection, two selections naming known courses \<open>a\<close> and \<open>b\<close>
  of two slots each, and, for each course, a faculty pool that is the empty list (also for an
  absent column) or \<open>None\<close>, or a list whose first identifier matches a faculty record: the
  result has exactly two sessions, \<open>a\<close> on
  \<open>days[0]\<close> from slot 0 to slot 1, then \<open>b\<close> on \<open>days[0]\<close> from slot 3 to slot 0, the end
  slot being wrapped by \<open>mod slots_per_day\<close>.
\<close>
theorem two_courses_scenario:
  assumes days2: "length (days cons) = 2"
    and spd4: "slots_per_day cons = 4"
    and room_a: "\<exists>r \<in> set rooms_df. r_type r = room_type a"
    and room_b: "\<exists>r \<in> set rooms_df. r_type r = room_type b"
    and fac_ne: "faculty_df \<noteq> []"
    and known_a: "course_map courses_df (course_code sel_a) = Some a"
    and known_b: "course_map courses_df (course_code sel_b) = Some b"
    and dur_a: "duration_slots a = 2"
    and dur_b: "duration_slots b = 2"
    and pool_a: "get_faculty_pool a = PoolList [] \<or> get_faculty_pool a = PoolNone \<or>
         (\<exists>fid rest. get_faculty_pool a = PoolList (fid # rest) \<and> fid \<in> f_id ` set faculty_df)"
    and pool_b: "get_faculty_pool b = PoolList [] \<or> get_faculty_pool b = PoolNone \<or>
         (\<exists>fid rest. get_faculty_pool b = PoolList (fid # rest) \<and> fid \<in> f_id ` set faculty_df)"
  shows "\<exists>sa sb.
     solve_timetable students_df courses_df rooms_df faculty_df cons (Some [sel_a, sel_b]) = Inr [sa, sb] \<and>
     s_course sa = name a \<and> s_day sa = days cons ! 0 \<and> s_start sa = 0 \<and> s_end sa = 1 \<and>
     s_course sb = name b \<and> s_day sb = days cons ! 0 \<and> s_start sb = 3 \<and> s_end sb = 0"
proof -
  define ra where "ra = \<lparr>rq_student_id = Some (student_id sel_a), rq_course_code = course_code sel_a,
      rq_section = (case sel_section sel_a of None \<Rightarrow> ''A'' | Some s \<Rightarrow> s),
      rq_faculty_id = faculty_id sel_a, rq_course = a\<rparr>"
  define rb where "rb = \<lparr>rq_student_id = Some (student_id sel_b), rq_course_code = course_code sel_b,
      rq_section = (case sel_section sel_b of None \<Rightarrow> ''A'' | Some s \<Rightarrow> s),
      rq_faculty_id = faculty_id sel_b, rq_course = b\<rparr>"
  have reqs: "scheduled_courses courses_df (Some [sel_a, sel_b]) = [ra, rb]"
    by (simp add: scheduled_courses_def request_of_selection_def known_a known_b ra_def rb_def)
  from room_a have rooms_ne: "rooms_df \<noteq> []" by auto
  from resolve_room_find [OF rooms_ne] obtain rma rmb where
    rma: "resolve_room rooms_df (rooms_by_type rooms_df) (room_type (rq_course ra)) = Inr rma"
    and rmb: "resolve_room rooms_df (rooms_by_type rooms_df) (room_type (rq_course rb)) = Inr rmb"
    by blast
  from resolve_faculty_ok [OF fac_ne pool_a] obtain fa where
    fa: "resolve_faculty faculty_df (rq_course ra) = Inr fa" by (auto simp: ra_def)
  from resolve_faculty_ok [OF fac_ne pool_b] obtain fb where
    fb: "resolve_faculty faculty_df (rq_course rb) = Inr fb" by (auto simp: rb_def)
  from days2 have days_ne: "days cons \<noteq> []" by auto
  from spd4 have spd_nz: "slots_per_day cons \<noteq> 0" by simp
  define st0 where "st0 = \<lparr>solution_data = [], current_slot = 0\<rparr>"
  have i0: "py_index (days cons)
           (if int (length (days cons)) \<le> current_slot st0 div slots_per_day cons then 0
            else current_slot st0 div slots_per_day cons) = Inr (days cons ! 0)"
    using days_ne by (simp add: st0_def py_index_0)
  note one = schedule_one_resolved [OF spd_nz rma fa i0 refl]
  define sa where "sa = \<lparr>s_program = program a, s_section = rq_section ra, s_course = name a,
      s_faculty = f_name fa, s_room = r_name rma, s_day = days cons ! 0, s_start = 0, s_end = 1,
      s_start_time = time_str 0, s_end_time = time_str 1\<rparr>"
  define st1 where "st1 = \<lparr>solution_data = [sa], current_slot = 3\<rparr>"
  from one have step1: "schedule_one cons rooms_df faculty_df st0 ra = Inr st1"
    by (simp add: st0_def st1_def sa_def spd4 days2 dur_a ra_def)
  have i1: "py_index (days cons)
           (if int (length (days cons)) \<le> current_slot st1 div slots_per_day cons then 0
            else current_slot st1 div slots_per_day cons) = Inr (days cons ! 0)"
    using days_ne by (simp add: st1_def spd4 days2 py_index_0)
  note two = schedule_one_resolved [OF spd_nz rmb fb i1 refl]
  define sb where "sb = \<lparr>s_program = program b, s_section = rq_section rb, s_course = name b,
      s_faculty = f_name fb, s_room = r_name rmb, s_day = days cons ! 0, s_start = 3, s_end = 0,
      s_start_time = time_str 3, s_end_time = time_str 0\<rparr>"
  from two have step2: "schedule_one cons rooms_df faculty_df st1 rb =
      Inr \<lparr>solution_data = [sa, sb], current_slot = 6\<rparr>"
    by (simp add: st1_def sb_def spd4 days2 dur_b rb_def)
  from step1 step2 reqs
  have "solve_timetable students_df courses_df rooms_df faculty_df cons (Some [sel_a, sel_b]) = Inr [sa, sb]"
    by (simp add: solve_timetable_def st0_def [symmetric])
  then show ?thesis
    by (intro exI [of _ sa] exI [of _ sb]) (simp add: sa_def sb_def)
qed

lemma request_of_selection_unknown:
  "course_code sel \<notin> code ` set courses_df \<Longrightarrow> request_of_selection (course_map courses_df) sel = []"
  by (simp add: request_of_selection_def course_map_None [symmetric])

lemma request_of_selection_known:
  "course_code sel \<in> code ` set courses_df \<Longrightarrow>
   \<exists>c. course_map courses_df (course_code sel) = Some c \<and>
       request_of_selection (course_map courses_df) sel =
          [\<lparr>rq_student_id = Some (student_id sel),
            rq_course_code = course_code sel,
            rq_section = (case sel_section sel of None \<Rightarrow> ''A'' | Some s \<Rightarrow> s),
            rq_faculty_id = faculty_id sel,
            rq_course = c\<rparr>]"
proof -
  assume "course_code sel \<in> code ` set courses_df"
  then have "course_map courses_df (course_code sel) \<noteq> None"
    by (simp add: course_map_None)
  then show ?thesis
    by (auto simp: request_of_selection_def)
qed

lemma requests_drop_unknown:
  "concat (map (request_of_selection (course_map courses_df)) sels) =
   concat (map (request_of_selection (course_map courses_df))
             (filter (\<lambda>s. course_code s \<in> code ` set courses_df) sels))"
  by (induction sels) (simp_all add: request_of_selection_unknown)

lemma requests_of_known:
  "list_all2 (\<lambda>s ci. rq_section ci = (case sel_section s of None \<Rightarrow> ''A'' | Some x \<Rightarrow> x) \<and>
                     course_map courses_df (course_code s) = Some (rq_course ci))
     (filter (\<lambda>s. course_code s \<in> code ` set courses_df) sels)
     (concat (map (request_of_selection (course_map courses_df)) sels))"
proof (induction sels)
  case Nil
  then show ?case by simp
next
  case (Cons s sels)
  show ?case
  proof (cases "course_code s \<in> code ` set courses_df")
    case True
    from request_of_selection_known [OF True] Cons.IH True show ?thesis
      by auto
  next
    case False
    with Cons.IH show ?thesis
      by (simp add: request_of_selection_unknown)
  qed
qed

lemma schedule_one_succeeds:
  assumes "0 < slots_per_day cons" and "days cons \<noteq> []" and "rooms_df \<noteq> []"
    and "resolve_faculty faculty_df (rq_course ci) = Inr fac"
    and "- 1 \<le> duration_slots (rq_course ci)" and "0 \<le> current_slot st"
  shows "\<exists>st'. schedule_one cons rooms_df faculty_df st ci = Inr st' \<and> 0 \<le> current_slot st'"
proof -
  let ?spd = "slots_per_day cons" and ?cs = "current_slot st"
  let ?wrap = "int (length (days cons)) \<le> ?cs div ?spd"
  from assms(1) have nz: "?spd \<noteq> 0" by simp
  from resolve_room_find [OF assms(3)] obtain rm where
    rm: "resolve_room rooms_df (rooms_by_type rooms_df) (room_type (rq_course ci)) = Inr rm"
    by blast
  from assms(1,6) have d0: "0 \<le> ?cs div ?spd" by (simp add: pos_imp_zdiv_nonneg_iff)
  have "\<exists>d. py_index (days cons) (if ?wrap then 0 else ?cs div ?spd) = Inr d"
  proof (cases ?wrap)
    case True
    with assms(2) show ?thesis by (simp add: py_index_0)
  next
    case False
    with d0 show ?thesis by (simp add: py_index_nonneg)
  qed
  then obtain d where d: "py_index (days cons) (if ?wrap then 0 else ?cs div ?spd) = Inr d" ..
  note eq = schedule_one_resolved [OF nz rm assms(4) d refl]
  from assms(1,6) have "0 \<le> ?cs mod ?spd" by simp
  with assms(5,6) have "0 \<le> (if ?wrap then ?cs mod ?spd else ?cs) + duration_slots (rq_course ci) + 1"
    by auto
  with eq show ?thesis by simp
qed

lemma schedule_all_succeeds:
  assumes "0 < slots_per_day cons" and "days cons \<noteq> []" and "rooms_df \<noteq> []"
  shows "(\<And>ci. ci \<in> set reqs \<Longrightarrow>
            (\<exists>fac. resolve_faculty faculty_df (rq_course ci) = Inr fac) \<and>
            - 1 \<le> duration_slots (rq_course ci)) \<Longrightarrow>
         0 \<le> current_slot st \<Longrightarrow>
         \<exists>st'. schedule_all cons rooms_df faculty_df st reqs = Inr st'"
proof (induction reqs arbitrary: st)
  case Nil
  then show ?case by simp
next
  case (Cons ci reqs)
  from Cons.prems(1) [of ci] obtain fac where
    f: "resolve_faculty faculty_df (rq_course ci) = Inr fac"
    and dur: "- 1 \<le> duration_slots (rq_course ci)"
    by auto
  from schedule_one_succeeds [OF assms f dur Cons.prems(2)] obtain st1 where
    one: "schedule_one cons rooms_df faculty_df st ci = Inr st1" and nn: "0 \<le> current_slot st1"
    by blast
  have "\<exists>st'. schedule_all cons rooms_df faculty_df st1 reqs = Inr st'"
    by (rule Cons.IH) (rule Cons.prems(1), simp, rule nn)
  with one show ?case by simp
qed

lemma solve_timetable_succeeds:
  assumes "0 < slots_per_day cons" and "days cons \<noteq> []" and "rooms_df \<noteq> []"
    and "\<And>ci. ci \<in> set (scheduled_courses courses_df selections_df) \<Longrightarrow>
            (\<exists>fac. resolve_faculty faculty_df (rq_course ci) = Inr fac) \<and>
            - 1 \<le> duration_slots (rq_course ci)"
  shows "\<exists>out. solve_timetable students_df courses_df rooms_df faculty_df cons selections_df = Inr out \<and>
               length out = length (scheduled_courses courses_df selections_df)"
proof -
  have "0 \<le> current_slot \<lparr>solution_data = [], current_slot = 0\<rparr>" by simp
  from schedule_all_succeeds [OF assms(1-3) assms(4) this] obtain st' where
    "schedule_all cons rooms_df faculty_df \<lparr>solution_data = [], current_slot = 0\<rparr>
       (scheduled_courses courses_df selections_df) = Inr st'"
    by blast
  then have s: "solve_timetable students_df courses_df rooms_df faculty_df cons selections_df =
        Inr (solution_data st')"
    by (simp add: solve_timetable_def)
  from solve_timetable_emits [OF s] s show ?thesis
    by (auto dest: list_all2_lengthD)
qed

text \<open>
  Claim C4.  For a non-empty selection list, the selections whose course code is not in the
  catalog are dropped without an exception.  The run equals the run on the list with those
  selections removed when some selection remains, and is the empty result when none does; a
  result has \<open>N - k\<close> sessions, for \<open>N\<close> selections of which \<open>k\<close> name unknown codes, and
  they follow the known selections in input order.  The run does return such a result when
  the grid is not empty, there is a room, and the faculty member of every accepted request
  resolves (no duration being below \<open>-1\<close>, which keeps the counter from turning negative).
\<close>
theorem unknown_codes_dropped:
  assumes "sels \<noteq> []"
  shows "(filter (\<lambda>s. course_code s \<in> code ` set courses_df) sels \<noteq> [] \<longrightarrow>
            solve_timetable students_df courses_df rooms_df faculty_df cons (Some sels) =
            solve_timetable students_df courses_df rooms_df faculty_df cons
              (Some (filter (\<lambda>s. course_code s \<in> code ` set courses_df) sels))) \<and>
         (filter (\<lambda>s. course_code s \<in> code ` set courses_df) sels = [] \<longrightarrow>
            solve_timetable students_df courses_df rooms_df faculty_df cons (Some sels) = Inr []) \<and>
         (\<forall>out. solve_timetable students_df courses_df rooms_df faculty_df cons (Some sels) = Inr out \<longrightarrow>
            length out = length sels - length (filter (\<lambda>s. course_code s \<notin> code ` set courses_df) sels) \<and>
            map s_course out =
              map (\<lambda>s. name (the (course_map courses_df (course_code s))))
                (filter (\<lambda>s. course_code s \<in> code ` set courses_df) sels) \<and>
            map s_section out =
              map (\<lambda>s. case sel_section s of None \<Rightarrow> ''A'' | Some x \<Rightarrow> x)
                (filter (\<lambda>s. course_code s \<in> code ` set courses_df) sels)) \<and>
         (0 < slots_per_day cons \<and> days cons \<noteq> [] \<and> rooms_df \<noteq> [] \<and>
          (\<forall>ci \<in> set (scheduled_courses courses_df (Some sels)).
             (\<exists>fac. resolve_faculty faculty_df (rq_course ci) = Inr fac) \<and>
             - 1 \<le> duration_slots (rq_course ci)) \<longrightarrow>
            (\<exists>out. solve_timetable students_df courses_df rooms_df faculty_df cons (Some sels) = Inr out \<and>
               length out =
                 length sels - length (filter (\<lambda>s. course_code s \<notin> code ` set courses_df) sels)))"
proof (intro conjI impI allI)
  assume ok: "0 < slots_per_day cons \<and> days cons \<noteq> [] \<and> rooms_df \<noteq> [] \<and>
          (\<forall>ci \<in> set (scheduled_courses courses_df (Some sels)).
             (\<exists>fac. resolve_faculty faculty_df (rq_course ci) = Inr fac) \<and>
             - 1 \<le> duration_slots (rq_course ci))"
  then have a: "0 < slots_per_day cons" and b: "days cons \<noteq> []" and c: "rooms_df \<noteq> []"
    and d: "\<And>ci. ci \<in> set (scheduled_courses courses_df (Some sels)) \<Longrightarrow>
            (\<exists>fac. resolve_faculty faculty_df (rq_course ci) = Inr fac) \<and>
            - 1 \<le> duration_slots (rq_course ci)"
    by blast+
  from solve_timetable_succeeds [OF a b c d, where students_df = students_df] obtain out where
    s: "solve_timetable students_df courses_df rooms_df faculty_df cons (Some sels) = Inr out"
    and len: "length out = length (scheduled_courses courses_df (Some sels))"
    by blast
  from assms have reqs: "scheduled_courses courses_df (Some sels) =
      concat (map (request_of_selection (course_map courses_df)) sels)"
    by (simp add: scheduled_courses_def)
  from list_all2_lengthD [OF requests_of_known [of courses_df sels]] len reqs
  have "length out = length (filter (\<lambda>s. course_code s \<in> code ` set courses_df) sels)" by simp
  moreover have "length (filter (\<lambda>s. course_code s \<in> code ` set courses_df) sels) +
        length (filter (\<lambda>s. course_code s \<notin> code ` set courses_df) sels) = length sels"
    by (rule sum_length_filter_compl)
  ultimately have "length out =
      length sels - length (filter (\<lambda>s. course_code s \<notin> code ` set courses_df) sels)"
    by simp
  with s show "\<exists>out. solve_timetable students_df courses_df rooms_df faculty_df cons (Some sels) = Inr out \<and>
               length out =
                 length sels - length (filter (\<lambda>s. course_code s \<notin> code ` set courses_df) sels)"
    by blast
next
  assume ne: "filter (\<lambda>s. course_code s \<in> code ` set courses_df) sels \<noteq> []"
  have "scheduled_courses courses_df (Some sels) =
        scheduled_courses courses_df (Some (filter (\<lambda>s. course_code s \<in> code ` set courses_df) sels))"
    using assms ne requests_drop_unknown [of courses_df sels]
    by (simp add: scheduled_courses_def)
  then show "solve_timetable students_df courses_df rooms_df faculty_df cons (Some sels) =
            solve_timetable students_df courses_df rooms_df faculty_df cons
              (Some (filter (\<lambda>s. course_code s \<in> code ` set courses_df) sels))"
    by (simp add: solve_timetable_def)
next
  assume "filter (\<lambda>s. course_code s \<in> code ` set courses_df) sels = []"
  with requests_drop_unknown [of courses_df sels] assms
  have "scheduled_courses courses_df (Some sels) = []"
    by (simp add: scheduled_courses_def)
  then show "solve_timetable students_df courses_df rooms_df faculty_df cons (Some sels) = Inr []"
    by (simp add: solve_timetable_def)
next
  fix out
  assume s: "solve_timetable students_df courses_df rooms_df faculty_df cons (Some sels) = Inr out"
  from assms have reqs: "scheduled_courses courses_df (Some sels) =
      concat (map (request_of_selection (course_map courses_df)) sels)"
    by (simp add: scheduled_courses_def)
  note k = requests_of_known [of courses_df sels]
  note e = solve_timetable_emits [OF s, unfolded reqs]
  have len: "length out = length (filter (\<lambda>s. course_code s \<in> code ` set courses_df) sels)"
    using list_all2_lengthD [OF k] list_all2_lengthD [OF e] by simp
  have "length (filter (\<lambda>s. course_code s \<in> code ` set courses_df) sels) +
        length (filter (\<lambda>s. course_code s \<notin> code ` set courses_df) sels) = length sels"
    by (rule sum_length_filter_compl)
  with len show "length out =
      length sels - length (filter (\<lambda>s. course_code s \<notin> code ` set courses_df) sels)"
    by simp
  have both: "list_all2 (\<lambda>s sess. s_course sess = name (the (course_map courses_df (course_code s))) \<and>
                  s_section sess = (case sel_section s of None \<Rightarrow> ''A'' | Some x \<Rightarrow> x))
     (filter (\<lambda>s. course_code s \<in> code ` set courses_df) sels) out"
    using k e
    by (auto simp: list_all2_conv_all_nth emitted_for_def)
  then show "map s_course out =
              map (\<lambda>s. name (the (course_map courses_df (course_code s))))
                (filter (\<lambda>s. course_code s \<in> code ` set courses_df) sels)"
    by (auto simp: list_all2_conv_all_nth intro: nth_equalityI)
  from both show "map s_section out =
              map (\<lambda>s. case sel_section s of None \<Rightarrow> ''A'' | Some x \<Rightarrow> x)
                (filter (\<lambda>s. course_code s \<in> code ` set courses_df) sels)"
    by (auto simp: list_all2_conv_all_nth intro: nth_equalityI)
qed

section \<open>The time encoding compared with the specification\<close>

lemma floor_int_plus_half: "\<lfloor>(of_int n :: rat) + 1 / 2\<rfloor> = n"
  by (rule floor_unique) simp_all

lemma round_half_even_int: "round_half_even (of_int n) = n"
  by (simp add: round_half_even_def)

lemma round_half_even_half:
  "round_half_even (of_int n + 1 / 2) = (if even n then n else n + 1)"
  by (simp add: round_half_even_def floor_int_plus_half Let_def)

lemma time_str_even:
  assumes "0 \<le> m"
  shows "time_str (2 * m) = zfill2 (decimal (nat (8 + m))) @ '':'' @ zfill2 (decimal 0)"
proof -
  have h: "(of_int (2 * m) :: rat) * (1 / 2) = of_int m" by simp
  have x: "(8 :: rat) + of_int m = of_int (8 + m)" by simp
  from assms have nn: "\<not> (of_int (8 + m) :: rat) < 0" by simp
  show ?thesis
    unfolding time_str_def h x
    using nn
    by (simp only: format_02_0f_def round_half_even_int if_False)
       (simp add: float_mod_1_def py_int_def format_02d_def)
qed

lemma time_str_odd:
  assumes "0 \<le> m"
  shows "time_str (2 * m + 1) =
     zfill2 (decimal (nat (if even m then 8 + m else 9 + m))) @ '':'' @ zfill2 (decimal 30)"
proof -
  have h: "(of_int (2 * m + 1) :: rat) * (1 / 2) = of_int m + 1 / 2" by simp
  have x: "(8 :: rat) + (of_int m + 1 / 2) = of_int (8 + m) + 1 / 2" by simp
  from assms have "(0 :: rat) \<le> of_int (8 + m)" by simp
  then have nn: "\<not> (of_int (8 + m) :: rat) + 1 / 2 < 0" by linarith
  have fm: "float_mod_1 (of_int m + 1 / 2) = 1 / 2"
    by (simp add: float_mod_1_def floor_int_plus_half)
  have mins: "format_02d (py_int (float_mod_1 (of_int m + 1 / 2) * 60)) = zfill2 (decimal 30)"
    by (simp add: fm py_int_def format_02d_def)
  have hour: "format_02_0f (of_int (8 + m) + 1 / 2) =
      zfill2 (decimal (nat (if even m then 8 + m else 9 + m)))"
    using nn by (simp only: format_02_0f_def round_half_even_half if_False) auto
  show ?thesis
    unfolding time_str_def h x mins hour ..
qed

lemma spec_clock_time_even:
  "spec_clock_time (2 * m) = zfill2 (decimal (nat (8 + m))) @ '':'' @ zfill2 (decimal 0)"
proof -
  have "8 * 60 + 2 * m * 30 = (8 + m) * 60" by simp
  then show ?thesis by (simp add: spec_clock_time_def)
qed

lemma spec_clock_time_odd:
  "spec_clock_time (2 * m + 1) = zfill2 (decimal (nat (8 + m))) @ '':'' @ zfill2 (decimal 30)"
proof -
  have e: "8 * 60 + (2 * m + 1) * 30 = (8 + m) * 60 + 30" by (simp add: algebra_simps)
  have "((8 + m) * 60 + 30) div 60 = 8 + m" "((8 + m) * 60 + 30) mod 60 = 30"
    by simp_all
  with e show ?thesis by (simp add: spec_clock_time_def add.commute)
qed

lemma time_str_characterisation:
  assumes "0 \<le> slot"
  shows "time_str slot =
     (if slot mod 4 = 3 then zfill2 (decimal (nat (9 + slot div 2))) @ '':'' @ zfill2 (decimal 30)
      else spec_clock_time slot)"
proof (cases "even slot")
  case True
  then obtain m where m: "slot = 2 * m" by (elim evenE)
  with assms have "0 \<le> m" by simp
  have "slot mod 4 \<noteq> 3" using m by presburger
  with time_str_even [OF \<open>0 \<le> m\<close>] spec_clock_time_even [of m] m show ?thesis
    by simp
next
  case False
  then obtain m where m: "slot = 2 * m + 1" by (elim oddE)
  with assms have m0: "0 \<le> m" by simp
  have c: "slot mod 4 = 3 \<longleftrightarrow> odd m" using m by presburger
  have d: "slot div 2 = m" using m by simp
  show ?thesis
    using time_str_odd [OF m0] spec_clock_time_odd [of m] c d m
    by (cases "even m") simp_all
qed

text \<open>
  So, for a slot that is not negative, the code writes the clock time of the specification
  except when \<open>slot mod 4 = 3\<close>, where the hour is one too large.  The other examples of the
  specification are met.
\<close>

lemma time_str_examples:
  "time_str 0 = ''08:00''" "time_str 1 = ''08:30''" "time_str 16 = ''16:00''"
  by code_simp+

text \<open>
  Claim C2.  The claim asks for the clock time \<open>08:00 + slot * 30 min\<close>, which is \<open>09:30\<close>
  for slot 3.  The code formats the hour \<open>8 + slot * 0.5\<close> with \<open>.0f\<close>, which rounds where
  it should truncate, and writes \<open>10:30\<close>.
\<close>

theorem time_str_slot_3: "time_str 3 = ''10:30'' \<and> spec_clock_time 3 = ''09:30''"
  by code_simp

section \<open>The theorems at the sample data\<close>

theorem output_independent_witness:
  "solve_timetable () [sample_course_a, sample_course_b] sample_rooms sample_faculty sample_cons
     (Some [sample_sel 1 ''A'' None, sample_sel 1 ''B'' None]) =
   solve_timetable () [sample_course_a, sample_course_b] sample_rooms sample_faculty sample_cons
     (Some [sample_sel 2 ''A'' (Some 9), sample_sel 3 ''B'' (Some 1)])"
  by (rule output_independent_of_student_and_faculty_id) (simp_all add: sample_sel_def)

theorem day_wrap_witness:
  "\<exists>sess.
     schedule_one sample_cons sample_rooms sample_faculty
       \<lparr>solution_data = [], current_slot = 9\<rparr> (request_of_course sample_course_a) =
       Inr \<lparr>solution_data = [sess], current_slot = 4\<rparr> \<and>
     s_day sess = ''Mon'' \<and> s_start sess = 1 \<and> s_end sess = 2"
proof -
  have h1: "slots_per_day sample_cons \<noteq> 0" by (simp add: sample_cons_def)
  have h2: "int (length (days sample_cons)) \<le>
            current_slot \<lparr>solution_data = [], current_slot = 9\<rparr> div slots_per_day sample_cons"
    by (simp add: sample_cons_def)
  have h3: "days sample_cons \<noteq> []" by (simp add: sample_cons_def)
  have h4: "resolve_room sample_rooms (rooms_by_type sample_rooms)
              (room_type (rq_course (request_of_course sample_course_a))) =
            Inr \<lparr>r_id = 2, r_name = ''L1'', r_type = ''Lab''\<rparr>"
    by code_simp
  have h5: "resolve_faculty sample_faculty (rq_course (request_of_course sample_course_a)) =
            Inr \<lparr>f_id = 1, f_name = ''Dr. Smith''\<rparr>"
    by code_simp
  from day_wrap_resets_counter [OF h1 h2 h3 h4 h5, of "[]"]
  obtain sess where
    "schedule_one sample_cons sample_rooms sample_faculty
       \<lparr>solution_data = [], current_slot = 9\<rparr> (request_of_course sample_course_a) =
       Inr \<lparr>solution_data = solution_data \<lparr>solution_data = [], current_slot = 9\<rparr> @ [sess],
            current_slot = current_slot \<lparr>solution_data = [], current_slot = 9\<rparr>
               mod slots_per_day sample_cons +
               duration_slots (rq_course (request_of_course sample_course_a)) + 1\<rparr>"
    and "s_day sess = days sample_cons ! 0"
    and "s_start sess = current_slot \<lparr>solution_data = [], current_slot = 9\<rparr>
               mod slots_per_day sample_cons"
    and "s_end sess =
        (current_slot \<lparr>solution_data = [], current_slot = 9\<rparr> mod slots_per_day sample_cons +
         duration_slots (rq_course (request_of_course sample_course_a)) - 1)
          mod slots_per_day sample_cons"
    by blast
  then have
    "schedule_one sample_cons sample_rooms sample_faculty
       \<lparr>solution_data = [], current_slot = 9\<rparr> (request_of_course sample_course_a) =
       Inr \<lparr>solution_data = [sess], current_slot = 4\<rparr> \<and>
     s_day sess = ''Mon'' \<and> s_start sess = 1 \<and> s_end sess = 2"
    by (simp add: sample_cons_def sample_course_a_def request_of_course_def)
  then show ?thesis ..
qed

text \<open>
  A pool cell that pandas left as \<open>NaN\<close> is true, so line 95 calls \<open>len\<close> on it: the same two
  courses, the second with such a cell, raise \<open>TypeError\<close> and no session is returned.
\<close>

lemma nan_pool_cell_raises_type_error:
  "solve_timetable ()
     [\<lparr>code = ''A'', name = ''Algorithms'', program = ''CS'', c_section = ''A'',
        duration_slots = 2, room_type = ''Lab'', faculty_pool = Some (PoolList [1])\<rparr>,
      \<lparr>code = ''B'', name = ''Biology'', program = ''BT'', c_section = ''A'',
        duration_slots = 2, room_type = ''Lab'', faculty_pool = Some PoolNaN\<rparr>]
     [\<lparr>r_id = 1, r_name = ''L1'', r_type = ''Lab''\<rparr>]
     [\<lparr>f_id = 1, f_name = ''Dr. Smith''\<rparr>]
     \<lparr>days = [''Mon'', ''Tue''], slots_per_day = 4\<rparr>
     (Some [\<lparr>student_id = 1, course_code = ''A'', sel_section = Some ''S1'', faculty_id = None\<rparr>,
            \<lparr>student_id = 1, course_code = ''B'', sel_section = Some ''S1'', faculty_id = None\<rparr>])
   = Inl TypeError"
  by code_simp

theorem two_courses_scenario_counterexample:
  "solve_timetable ()
     [\<lparr>code = ''A'', name = ''Algorithms'', program = ''CS'', c_section = ''A'',
        duration_slots = 2, room_type = ''Lab'', faculty_pool = Some (PoolList [7])\<rparr>,
      \<lparr>code = ''B'', name = ''Biology'', program = ''BT'', c_section = ''A'',
        duration_slots = 2, room_type = ''Lab'', faculty_pool = None\<rparr>]
     [\<lparr>r_id = 1, r_name = ''L1'', r_type = ''Lab''\<rparr>]
     [\<lparr>f_id = 1, f_name = ''Dr. Smith''\<rparr>]
     \<lparr>days = [''Mon'', ''Tue''], slots_per_day = 4\<rparr>
     (Some [\<lparr>student_id = 1, course_code = ''A'', sel_section = Some ''S1'', faculty_id = None\<rparr>,
            \<lparr>student_id = 1, course_code = ''B'', sel_section = Some ''S1'', faculty_id = None\<rparr>])
   = Inl IndexError"
  by code_simp

theorem two_courses_scenario_witness:
  "\<exists>sa sb.
     solve_timetable () [sample_course_a, sample_course_b] sample_rooms sample_faculty sample_cons
       (Some [sample_sel 1 ''A'' None, sample_sel 2 ''B'' (Some 5)]) = Inr [sa, sb] \<and>
     s_course sa = ''Algorithms'' \<and> s_day sa = ''Mon'' \<and> s_start sa = 0 \<and> s_end sa = 1 \<and>
     s_course sb = ''Biology'' \<and> s_day sb = ''Mon'' \<and> s_start sb = 3 \<and> s_end sb = 0"
proof -
  have h1: "length (days sample_cons) = 2" by (simp add: sample_cons_def)
  have h2: "slots_per_day sample_cons = 4" by (simp add: sample_cons_def)
  have h3: "\<exists>r \<in> set sample_rooms. r_type r = room_type sample_course_a"
    by (simp add: sample_rooms_def sample_course_a_def)
  have h3b: "\<exists>r \<in> set sample_rooms. r_type r = room_type sample_course_b"
    by (simp add: sample_rooms_def sample_course_b_def)
  have h4: "sample_faculty \<noteq> []" by (simp add: sample_faculty_def)
  have h5: "course_map [sample_course_a, sample_course_b] (course_code (sample_sel 1 ''A'' None))
              = Some sample_course_a"
    by (simp add: course_map_def sample_sel_def sample_course_a_def sample_course_b_def)
  have h6: "course_map [sample_course_a, sample_course_b] (course_code (sample_sel 2 ''B'' (Some 5)))
              = Some sample_course_b"
    by (simp add: course_map_def sample_sel_def sample_course_a_def sample_course_b_def)
  have h7: "duration_slots sample_course_a = 2" by (simp add: sample_course_a_def)
  have h8: "duration_slots sample_course_b = 2" by (simp add: sample_course_b_def)
  have h9: "get_faculty_pool sample_course_a = PoolList [] \<or>
            get_faculty_pool sample_course_a = PoolNone \<or>
            (\<exists>fid rest. get_faculty_pool sample_course_a = PoolList (fid # rest) \<and>
                        fid \<in> f_id ` set sample_faculty)"
    by (simp add: get_faculty_pool_def sample_course_a_def sample_faculty_def)
  have h10: "get_faculty_pool sample_course_b = PoolList [] \<or>
            get_faculty_pool sample_course_b = PoolNone \<or>
            (\<exists>fid rest. get_faculty_pool sample_course_b = PoolList (fid # rest) \<and>
                        fid \<in> f_id ` set sample_faculty)"
    by (simp add: get_faculty_pool_def sample_course_b_def)
  from two_courses_scenario [OF h1 h2 h3 h3b h4 h5 h6 h7 h8 h9 h10, of "()"]
  show ?thesis by (simp add: sample_course_a_def sample_course_b_def sample_cons_def)
qed

lemma sample_run:
  "solve_timetable () [sample_course_a, sample_course_b, sample_course_c] sample_rooms sample_faculty
     sample_cons
     (Some [sample_sel 1 ''A'' None, sample_sel 1 ''Z'' None, sample_sel 2 ''C'' None,
            sample_sel 2 ''B'' None, sample_sel 3 ''A'' None]) =
   Inr [\<lparr>s_program = ''CS'', s_section = ''S1'', s_course = ''Algorithms'', s_faculty = ''Dr. Smith'',
          s_room = ''L1'', s_day = ''Mon'', s_start = 0, s_end = 1,
          s_start_time = ''08:00'', s_end_time = ''08:30''\<rparr>,
        \<lparr>s_program = ''FA'', s_section = ''S1'', s_course = ''Ceramics'', s_faculty = ''Dr. Smith'',
          s_room = ''H1'', s_day = ''Mon'', s_start = 3, s_end = 1,
          s_start_time = ''10:30'', s_end_time = ''08:30''\<rparr>,
        \<lparr>s_program = ''BT'', s_section = ''S1'', s_course = ''Biology'', s_faculty = ''Dr. Smith'',
          s_room = ''H1'', s_day = ''Tue'', s_start = 3, s_end = 0,
          s_start_time = ''10:30'', s_end_time = ''08:00''\<rparr>,
        \<lparr>s_program = ''CS'', s_section = ''S1'', s_course = ''Algorithms'', s_faculty = ''Dr. Smith'',
          s_room = ''L1'', s_day = ''Mon'', s_start = 2, s_end = 3,
          s_start_time = ''09:00'', s_end_time = ''10:30''\<rparr>]"
  by code_simp

theorem emitted_sessions_in_grid_witness:
  "0 \<le> s_start \<lparr>s_program = ''CS'', s_section = ''S1'', s_course = ''Algorithms'',
            s_faculty = ''Dr. Smith'', s_room = ''L1'', s_day = ''Mon'', s_start = 2, s_end = 3,
            s_start_time = ''09:00'', s_end_time = ''10:30''\<rparr> \<and>
   s_start \<lparr>s_program = ''CS'', s_section = ''S1'', s_course = ''Algorithms'',
            s_faculty = ''Dr. Smith'', s_room = ''L1'', s_day = ''Mon'', s_start = 2, s_end = 3,
            s_start_time = ''09:00'', s_end_time = ''10:30''\<rparr> < slots_per_day sample_cons \<and>
   0 \<le> s_end \<lparr>s_program = ''CS'', s_section = ''S1'', s_course = ''Algorithms'',
            s_faculty = ''Dr. Smith'', s_room = ''L1'', s_day = ''Mon'', s_start = 2, s_end = 3,
            s_start_time = ''09:00'', s_end_time = ''10:30''\<rparr> \<and>
   s_end \<lparr>s_program = ''CS'', s_section = ''S1'', s_course = ''Algorithms'',
            s_faculty = ''Dr. Smith'', s_room = ''L1'', s_day = ''Mon'', s_start = 2, s_end = 3,
            s_start_time = ''09:00'', s_end_time = ''10:30''\<rparr> < slots_per_day sample_cons \<and>
   s_day \<lparr>s_program = ''CS'', s_section = ''S1'', s_course = ''Algorithms'',
            s_faculty = ''Dr. Smith'', s_room = ''L1'', s_day = ''Mon'', s_start = 2, s_end = 3,
            s_start_time = ''09:00'', s_end_time = ''10:30''\<rparr> \<in> set (days sample_cons)"
proof -
  have pos: "0 < slots_per_day sample_cons" by (simp add: sample_cons_def)
  show ?thesis
    by (rule emitted_sessions_in_grid [OF pos sample_run]) simp
qed


theorem unknown_codes_dropped_witness:
  "solve_timetable () [sample_course_a, sample_course_b, sample_course_c] sample_rooms sample_faculty
     sample_cons
     (Some [sample_sel 1 ''A'' None, sample_sel 1 ''Z'' None, sample_sel 2 ''C'' None,
            sample_sel 2 ''B'' None, sample_sel 3 ''A'' None]) =
   solve_timetable () [sample_course_a, sample_course_b, sample_course_c] sample_rooms sample_faculty
     sample_cons
     (Some [sample_sel 1 ''A'' None, sample_sel 2 ''C'' None,
            sample_sel 2 ''B'' None, sample_sel 3 ''A'' None])"
proof -
  have ne: "[sample_sel 1 ''A'' None, sample_sel 1 ''Z'' None, sample_sel 2 ''C'' None,
            sample_sel 2 ''B'' None, sample_sel 3 ''A'' None] \<noteq> []" by simp
  have flt: "filter (\<lambda>s. course_code s \<in> code ` set [sample_course_a, sample_course_b, sample_course_c])
       [sample_sel 1 ''A'' None, sample_sel 1 ''Z'' None, sample_sel 2 ''C'' None,
        sample_sel 2 ''B'' None, sample_sel 3 ''A'' None] =
     [sample_sel 1 ''A'' None, sample_sel 2 ''C'' None, sample_sel 2 ''B'' None, sample_sel 3 ''A'' None]"
    by (simp add: sample_sel_def sample_course_a_def sample_course_b_def sample_course_c_def)
  from unknown_codes_dropped [OF ne, of "[sample_course_a, sample_course_b, sample_course_c]"
      "()" sample_rooms sample_faculty sample_cons]
  show ?thesis unfolding flt by simp
qed

theorem missing_resource_raises_witness:
  "(\<exists>e. solve_timetable () [sample_course_a] [] sample_faculty sample_cons
           (Some [sample_sel 1 ''A'' None]) = Inl e) \<and>
   (\<exists>e. solve_timetable () [sample_course_b] sample_rooms [] sample_cons
           (Some [sample_sel 1 ''B'' None]) = Inl e) \<and>
   (\<exists>e. solve_timetable () [sample_course_a] sample_rooms [\<lparr>f_id = 2, f_name = ''Dr. Jones''\<rparr>]
           sample_cons (Some [sample_sel 1 ''A'' None]) = Inl e)"
proof (intro conjI)
  have ra: "scheduled_courses [sample_course_a] (Some [sample_sel 1 ''A'' None]) =
      [\<lparr>rq_student_id = Some 1, rq_course_code = ''A'', rq_section = ''S1'',
        rq_faculty_id = None, rq_course = sample_course_a\<rparr>]"
    by (simp add: scheduled_courses_def request_of_selection_def course_map_def
          sample_sel_def sample_course_a_def)
  have rb: "scheduled_courses [sample_course_b] (Some [sample_sel 1 ''B'' None]) =
      [\<lparr>rq_student_id = Some 1, rq_course_code = ''B'', rq_section = ''S1'',
        rq_faculty_id = None, rq_course = sample_course_b\<rparr>]"
    by (simp add: scheduled_courses_def request_of_selection_def course_map_def
          sample_sel_def sample_course_b_def)
  show "\<exists>e. solve_timetable () [sample_course_a] [] sample_faculty sample_cons
           (Some [sample_sel 1 ''A'' None]) = Inl e"
    by (rule missing_resource_raises) (simp_all add: ra)
  show "\<exists>e. solve_timetable () [sample_course_b] sample_rooms [] sample_cons
           (Some [sample_sel 1 ''B'' None]) = Inl e"
    by (rule missing_resource_raises, simp_all add: rb)
       (simp add: get_faculty_pool_def sample_course_b_def)
  show "\<exists>e. solve_timetable () [sample_course_a] sample_rooms [\<lparr>f_id = 2, f_name = ''Dr. Jones''\<rparr>]
           sample_cons (Some [sample_sel 1 ''A'' None]) = Inl e"
    by (rule missing_resource_raises, simp_all add: ra)
       (simp add: get_faculty_pool_def sample_course_a_def)
qed

section \<open>The reference decoder inverts the encoder\<close>

lemma less_10_cases:
  "d < 10 \<Longrightarrow> d = 0 \<or> d = 1 \<or> d = 2 \<or> d = 3 \<or> d = 4 \<or> d = 5 \<or> d = 6 \<or> d = 7 \<or> d = 8 \<or> d = (9::nat)"
  by arith

lemma of_char_digit_char: "d < 10 \<Longrightarrow> (of_char (digit_char d) :: nat) = 48 + d"
  by (drule less_10_cases) (auto simp: digit_char_def)

lemma is_digit_digit_char: "d < 10 \<Longrightarrow> is_digit (digit_char d)"
  by (simp add: is_digit_def of_char_digit_char)

lemma digit_val_digit_char: "d < 10 \<Longrightarrow> digit_val (digit_char d) = d"
  by (simp add: digit_val_def of_char_digit_char)

lemma decimal_digits: "c \<in> set (decimal n) \<Longrightarrow> is_digit c"
proof (induction n rule: decimal.induct)
  case (1 n)
  show ?case
  proof (cases "n < 10")
    case True
    with "1.prems" show ?thesis
      by (subst (asm) decimal.simps) (simp add: is_digit_digit_char)
  next
    case False
    with "1.prems" have "c \<in> set (decimal (n div 10)) \<or> c = digit_char (n mod 10)"
      by (subst (asm) decimal.simps) auto
    with "1.IH" False show ?thesis
      by (auto simp: is_digit_digit_char)
  qed
qed

lemma decimal_not_Nil: "decimal n \<noteq> []"
  by (subst decimal.simps) simp

lemma digits_val_snoc: "digits_val (ds @ [c]) = 10 * digits_val ds + digit_val c"
  by (simp add: digits_val_def)

lemma digits_val_decimal: "digits_val (decimal n) = n"
proof (induction n rule: decimal.induct)
  case (1 n)
  show ?case
  proof (cases "n < 10")
    case True
    then show ?thesis
      by (subst decimal.simps) (simp add: digits_val_def digit_val_digit_char)
  next
    case False
    with "1.IH" show ?thesis
      by (subst decimal.simps) (simp add: digits_val_snoc digit_val_digit_char)
  qed
qed

lemma hd_decimal_zero: "hd (decimal n) = CHR ''0'' \<longleftrightarrow> n = 0"
proof (induction n rule: decimal.induct)
  case (1 n)
  show ?case
  proof (cases "n < 10")
    case True
    then have "decimal n = [digit_char n]" by (subst decimal.simps) simp
    moreover have "digit_char n = CHR ''0'' \<longleftrightarrow> n = 0"
    proof
      assume "digit_char n = CHR ''0''"
      then have "(of_char (digit_char n) :: nat) = of_char (CHR ''0'')" by simp
      with True show "n = 0" by (simp add: of_char_digit_char)
    next
      assume "n = 0"
      then show "digit_char n = CHR ''0''" by (simp add: digit_char_def)
    qed
    ultimately show ?thesis by simp
  next
    case False
    then have d: "decimal n = decimal (n div 10) @ [digit_char (n mod 10)]"
      by (subst decimal.simps) simp
    from False have "n div 10 \<noteq> 0" by simp
    with "1.IH" False have "hd (decimal (n div 10)) \<noteq> CHR ''0''" by simp
    with d decimal_not_Nil [of "n div 10"] False show ?thesis
      by (simp add: hd_append)
  qed
qed

lemma takeWhile_prefix:
  "(\<And>x. x \<in> set xs \<Longrightarrow> P x) \<Longrightarrow> (case ys of [] \<Rightarrow> True | y # _ \<Rightarrow> \<not> P y) \<Longrightarrow>
   takeWhile P (xs @ ys) = xs"
  by (induction xs) (auto split: list.splits)

lemma delimited_not_digit: "delimited rest \<Longrightarrow> (case rest of [] \<Rightarrow> True | y # _ \<Rightarrow> \<not> is_digit y)"
  by (auto simp: delimited_def is_digit_def split: list.splits)

lemma delimited_not_fraction:
  "delimited rest \<Longrightarrow>
   \<not> (case rest of c # _ \<Rightarrow> c = CHR ''.'' \<or> c = CHR ''e'' \<or> c = CHR ''E'' | [] \<Rightarrow> False)"
  by (auto simp: delimited_def split: list.splits)

lemma is_digit_not_minus: "is_digit c \<Longrightarrow> c \<noteq> CHR ''-''"
  by (auto simp: is_digit_def)

lemma scan_digits:
  assumes "delimited rest"
  shows "(case decimal n @ rest of
            c # r \<Rightarrow> if c = CHR ''0'' then [c] else takeWhile is_digit (decimal n @ rest)
          | [] \<Rightarrow> []) = decimal n"
proof -
  obtain c r where cr: "decimal n = c # r"
    using decimal_not_Nil [of n] by (cases "decimal n") auto
  show ?thesis
  proof (cases "n = 0")
    case True
    then have "decimal n = [CHR ''0'']"
      by (subst decimal.simps) (simp add: digit_char_def)
    then show ?thesis by simp
  next
    case False
    with hd_decimal_zero [of n] cr have "c \<noteq> CHR ''0''" by simp
    moreover have "takeWhile is_digit (decimal n @ rest) = decimal n"
      by (rule takeWhile_prefix) (auto intro: decimal_digits delimited_not_digit [OF assms])
    ultimately show ?thesis using cr by simp
  qed
qed

lemma scan_int_nat:
  assumes "delimited rest"
  shows "scan_int (decimal n @ rest) = Some (int n, rest)"
proof -
  obtain c r where cr: "decimal n = c # r"
    using decimal_not_Nil [of n] by (cases "decimal n") auto
  then have "c \<in> set (decimal n)" by simp
  then have "c \<noteq> CHR ''-''" by (intro is_digit_not_minus decimal_digits)
  with cr have neg: "(case decimal n @ rest of c # _ \<Rightarrow> c = CHR ''-'' | [] \<Rightarrow> False) = False"
    by simp
  show ?thesis
    unfolding scan_int_def neg Let_def
    using delimited_not_fraction [OF assms]
    by (simp add: scan_digits [OF assms] decimal_not_Nil digits_val_decimal)
qed

lemma scan_int_neg:
  assumes "delimited rest"
  shows "scan_int (CHR ''-'' # decimal n @ rest) = Some (- int n, rest)"
proof -
  have tl: "tl (CHR ''-'' # decimal n @ rest) = decimal n @ rest" by simp
  show ?thesis
    unfolding scan_int_def Let_def list.case if_True tl refl
    using delimited_not_fraction [OF assms]
    by (simp add: scan_digits [OF assms] decimal_not_Nil digits_val_decimal)
qed

lemma scan_int_int_str:
  assumes "delimited rest"
  shows "scan_int (int_str i @ rest) = Some (i, rest)"
proof (cases "i < 0")
  case True
  with scan_int_neg [OF assms, of "nat (- i)"] show ?thesis
    by (simp add: int_str_def)
next
  case False
  with scan_int_nat [OF assms, of "nat i"] show ?thesis
    by (simp add: int_str_def)
qed

lemma less_16_cases:
  "d < 16 \<Longrightarrow> d = 0 \<or> d = 1 \<or> d = 2 \<or> d = 3 \<or> d = 4 \<or> d = 5 \<or> d = 6 \<or> d = 7 \<or> d = 8 \<or> d = 9 \<or>
     d = 10 \<or> d = 11 \<or> d = 12 \<or> d = 13 \<or> d = 14 \<or> d = (15::nat)"
  by arith

lemma hex_val_hex_digit: "d < 16 \<Longrightarrow> hex_val (hex_digit d) = Some d"
  by (drule less_16_cases) (auto simp: hex_digit_def hex_val_def)

lemma hex4_round_trip:
  assumes "n < 256"
  shows "\<exists>a b c d. hex4 n = [a, b, c, d] \<and> hex4_val a b c d = Some n"
proof -
  from assms have z: "n div 4096 mod 16 = 0" "n div 256 mod 16 = 0" "n div 16 mod 16 = n div 16"
    by simp_all
  have "hex4_val (hex_digit 0) (hex_digit 0) (hex_digit (n div 16)) (hex_digit (n mod 16)) =
        Some (16 * (n div 16) + n mod 16)"
    using assms by (simp add: hex4_val_def hex_val_hex_digit)
  then show ?thesis
    by (simp add: hex4_def z)
qed

lemma char_code_eq: "(of_char c :: nat) = of_char d \<Longrightarrow> c = d"
  by simp

lemma scanstring_escape:
  "scanstring (json_escape c @ rest) =
     (case scanstring rest of None \<Rightarrow> None | Some (str, r) \<Rightarrow> Some (c # str, r))"
proof -
  let ?n = "of_char c :: nat"
  consider (quote) "c = CHR 0x22" | (backslash) "c = CHR 0x5C"
    | (nl) "?n = 10" | (cr) "?n = 13" | (tab) "?n = 9" | (bs) "?n = 8" | (ff) "?n = 12"
    | (plain) "c \<noteq> CHR 0x22" "c \<noteq> CHR 0x5C" "32 \<le> ?n" "?n \<le> 126"
    | (other) "c \<noteq> CHR 0x22" "c \<noteq> CHR 0x5C" "?n \<noteq> 10" "?n \<noteq> 13" "?n \<noteq> 9" "?n \<noteq> 8"
        "?n \<noteq> 12" "\<not> (32 \<le> ?n \<and> ?n \<le> 126)"
    by blast
  then show ?thesis
  proof cases
    case quote
    then show ?thesis by (simp add: json_escape_def unescape_def split: option.splits)
  next
    case backslash
    then show ?thesis by (simp add: json_escape_def unescape_def split: option.splits)
  next
    case nl
    then have "c = CHR 0x0A" by (intro char_code_eq) simp
    then show ?thesis by (simp add: json_escape_def unescape_def split: option.splits)
  next
    case cr
    then have "c = CHR 0x0D" by (intro char_code_eq) simp
    then show ?thesis by (simp add: json_escape_def unescape_def split: option.splits)
  next
    case tab
    then have "c = CHR 0x09" by (intro char_code_eq) simp
    then show ?thesis by (simp add: json_escape_def unescape_def split: option.splits)
  next
    case bs
    then have "c = CHR 0x08" by (intro char_code_eq) simp
    then show ?thesis by (simp add: json_escape_def unescape_def split: option.splits)
  next
    case ff
    then have "c = CHR 0x0C" by (intro char_code_eq) simp
    then show ?thesis by (simp add: json_escape_def unescape_def split: option.splits)
  next
    case plain
    then have e: "json_escape c = [c]"
      by (auto simp: json_escape_def Let_def)
    from plain show ?thesis
      unfolding e by (simp split: option.splits)
  next
    case other
    then have e: "json_escape c = CHR 0x5C # CHR ''u'' # hex4 ?n"
      by (simp add: json_escape_def Let_def)
    from hex4_round_trip [of ?n] obtain a b c' d where
      h: "hex4 ?n = [a, b, c', d]" and v: "hex4_val a b c' d = Some ?n"
      by auto
    show ?thesis
      unfolding e h using v by (simp split: option.splits)
  qed
qed

lemma scanstring_quote:
  "scanstring (concat (map json_escape s) @ CHR 0x22 # rest) = Some (s, rest)"
  by (induction s) (simp_all add: scanstring_escape del: scanstring.simps(2), simp)

lemma scanstring_json_quote:
  "scanstring (tl (json_quote s) @ rest) = Some (s, rest)"
  using scanstring_quote [of s rest] by (simp add: json_quote_def)

lemma join_Cons: "join sep (x # xs) = x @ (if xs = [] then [] else sep @ join sep xs)"
  by (cases xs) simp_all

lemma skip_ws_id: "(case s of [] \<Rightarrow> True | c # _ \<Rightarrow> \<not> is_ws c) \<Longrightarrow> skip_ws s = s"
  by (cases s) (simp_all add: skip_ws_def)

lemma skip_ws_space: "skip_ws (CHR '' '' # s) = skip_ws s"
  by (simp add: skip_ws_def is_ws_def)

lemma int_str_head:
  "\<exists>c r. int_str i = c # r \<and> (c = CHR ''-'' \<or> is_digit c)"
proof (cases "i < 0")
  case True
  then show ?thesis by (simp add: int_str_def)
next
  case False
  obtain c r where cr: "decimal (nat i) = c # r"
    using decimal_not_Nil [of "nat i"] by (cases "decimal (nat i)") auto
  then have "c \<in> set (decimal (nat i))" by simp
  then have "is_digit c" by (rule decimal_digits)
  with cr False show ?thesis by (simp add: int_str_def)
qed

lemma json_dumps_head:
  "\<exists>c r. json_dumps v = c # r \<and> \<not> is_ws c \<and> c \<noteq> CHR '']'' \<and> c \<noteq> CHR ''}''"
proof (cases v)
  case (PyInt i)
  from int_str_head [of i] obtain c r where "int_str i = c # r" "c = CHR ''-'' \<or> is_digit c"
    by blast
  with PyInt show ?thesis by (auto simp: is_ws_def is_digit_def)
qed (auto simp: is_ws_def json_quote_def)

lemma skip_ws_json_dumps: "skip_ws (json_dumps v @ rest) = json_dumps v @ rest"
proof -
  from json_dumps_head [of v] obtain c r where "json_dumps v = c # r" "\<not> is_ws c" by blast
  then show ?thesis by (simp add: skip_ws_id)
qed

lemma skip_ws_delim:
  "skip_ws (CHR '','' # s) = CHR '','' # s" "skip_ws (CHR '']'' # s) = CHR '']'' # s"
  "skip_ws (CHR ''}'' # s) = CHR ''}'' # s" "skip_ws (CHR '':'' # s) = CHR '':'' # s"
  by (simp_all add: skip_ws_def is_ws_def)

lemma delimited_simps [simp]:
  "delimited []" "delimited (CHR '','' # s)" "delimited (CHR '']'' # s)" "delimited (CHR ''}'' # s)"
  by (simp_all add: delimited_def)

lemma scan_value_atoms:
  "scan_value (Suc n) (''null'' @ rest) = Some (PyNone, rest)"
  "scan_value (Suc n) (''true'' @ rest) = Some (PyBool True, rest)"
  "scan_value (Suc n) (''false'' @ rest) = Some (PyBool False, rest)"
  by simp_all

lemma scan_value_str:
  "scan_value (Suc n) (json_quote s @ rest) = Some (PyStr s, rest)"
  using scanstring_quote [of s rest] by (simp add: json_quote_def)

lemma scan_value_int:
  assumes "delimited rest"
  shows "scan_value (Suc n) (int_str i @ rest) = Some (PyInt i, rest)"
proof -
  from int_str_head [of i] obtain c r where
    cr: "int_str i = c # r" and c: "c = CHR ''-'' \<or> is_digit c"
    by blast
  from c have ne: "c \<noteq> CHR 0x22" "c \<noteq> CHR ''[''" "c \<noteq> CHR ''{''" "c \<noteq> CHR ''n''"
    "c \<noteq> CHR ''t''" "c \<noteq> CHR ''f''"
    by (auto simp: is_digit_def)
  have t4: "take 4 (c # r @ rest) \<noteq> ''null''" "take 4 (c # r @ rest) \<noteq> ''true''"
    and t5: "take 5 (c # r @ rest) \<noteq> ''false''"
    using ne by (auto simp: take_Cons')
  from scan_int_int_str [OF assms, of i] cr
  have si: "scan_int (c # r @ rest) = Some (i, rest)" by simp
  show ?thesis
    unfolding cr using ne t4 t5 si by simp
qed

lemma skip_ws_join:
  "xs \<noteq> [] \<Longrightarrow>
   skip_ws (join '', '' (map json_dumps xs) @ rest) = join '', '' (map json_dumps xs) @ rest"
proof -
  assume "xs \<noteq> []"
  then obtain x ys where xs: "xs = x # ys" by (cases xs) auto
  have "skip_ws (json_dumps x @ (if ys = [] then [] else '', '' @ join '', '' (map json_dumps ys)) @ rest) =
        json_dumps x @ (if ys = [] then [] else '', '' @ join '', '' (map json_dumps ys)) @ rest"
    by (rule skip_ws_json_dumps)
  then show ?thesis
    unfolding xs list.map join_Cons by simp
qed

lemma scan_array_elems:
  assumes "\<And>x n rest. x \<in> set xs \<Longrightarrow> length (json_dumps x) \<le> n \<Longrightarrow> delimited rest \<Longrightarrow>
             scan_value n (json_dumps x @ rest) = Some (x, rest)"
  shows "xs \<noteq> [] \<Longrightarrow> length (join '', '' (map json_dumps xs)) < n \<Longrightarrow>
         scan_array n (join '', '' (map json_dumps xs) @ CHR '']'' # rest) = Some (xs, rest)"
  using assms
proof (induction xs arbitrary: n)
  case Nil
  then show ?case by simp
next
  case (Cons x ys)
  from Cons.prems(2) obtain m where n: "n = Suc m" by (cases n) auto
  show ?case
  proof (cases "ys = []")
    case True
    with Cons.prems(2) n have "length (json_dumps x) \<le> m" by simp
    then have "scan_value m (json_dumps x @ CHR '']'' # rest) = Some (x, CHR '']'' # rest)"
      by (intro Cons.prems(3)) simp_all
    with True n show ?thesis by (simp add: skip_ws_delim)
  next
    case False
    let ?tail = "join '', '' (map json_dumps ys)"
    from False Cons.prems(2) n have lx: "length (json_dumps x) \<le> m" and lt: "length ?tail < m"
      by (simp_all add: join_Cons)
    have v: "scan_value m (json_dumps x @ CHR '','' # CHR '' '' # ?tail @ CHR '']'' # rest) =
             Some (x, CHR '','' # CHR '' '' # ?tail @ CHR '']'' # rest)"
      using lx by (intro Cons.prems(3)) simp_all
    have a: "scan_array m (?tail @ CHR '']'' # rest) = Some (ys, rest)"
      using False lt by (intro Cons.IH Cons.prems(3)) simp_all
    have t: "join '', '' (map json_dumps (x # ys)) @ CHR '']'' # rest =
             json_dumps x @ CHR '','' # CHR '' '' # ?tail @ CHR '']'' # rest"
      using False by (simp add: join_Cons)
    show ?thesis
      unfolding t n using v a False
      by (simp add: skip_ws_delim skip_ws_space skip_ws_join)
  qed
qed

lemma skip_ws_join_members:
  "kvs \<noteq> [] \<Longrightarrow>
   skip_ws (join '', '' (map (\<lambda>kv. json_quote (fst kv) @ '': '' @ json_dumps (snd kv)) kvs) @ rest) =
   join '', '' (map (\<lambda>kv. json_quote (fst kv) @ '': '' @ json_dumps (snd kv)) kvs) @ rest"
proof -
  assume "kvs \<noteq> []"
  then obtain kv ys where kvs: "kvs = kv # ys" by (cases kvs) auto
  show ?thesis
    unfolding kvs list.map join_Cons
    by (simp add: json_quote_def skip_ws_def is_ws_def)
qed

lemma scan_object_members:
  assumes "\<And>kv n rest. kv \<in> set kvs \<Longrightarrow> length (json_dumps (snd kv)) \<le> n \<Longrightarrow> delimited rest \<Longrightarrow>
             scan_value n (json_dumps (snd kv) @ rest) = Some (snd kv, rest)"
  shows "kvs \<noteq> [] \<Longrightarrow>
         length (join '', '' (map (\<lambda>kv. json_quote (fst kv) @ '': '' @ json_dumps (snd kv)) kvs)) < n \<Longrightarrow>
         scan_object n
           (join '', '' (map (\<lambda>kv. json_quote (fst kv) @ '': '' @ json_dumps (snd kv)) kvs) @ CHR ''}'' # rest) =
         Some (kvs, rest)"
  using assms
proof (induction kvs arbitrary: n)
  case Nil
  then show ?case by simp
next
  case (Cons kv ys)
  obtain k v where kv: "kv = (k, v)" by (cases kv)
  from Cons.prems(2) obtain m where n: "n = Suc m" by (cases n) auto
  let ?mem = "\<lambda>kv. json_quote (fst kv) @ '': '' @ json_dumps (snd kv)"
  let ?tail = "join '', '' (map ?mem ys)"
  have q: "\<And>r. json_quote k @ r = CHR 0x22 # tl (json_quote k) @ r"
    by (simp add: json_quote_def)
  have str: "\<And>r. scanstring (tl (json_quote k) @ r) = Some (k, r)"
    by (rule scanstring_json_quote)
  show ?case
  proof (cases "ys = []")
    case True
    with Cons.prems(2) n kv have "length (json_dumps v) \<le> m" by simp
    then have "scan_value m (json_dumps (snd kv) @ CHR ''}'' # rest) = Some (snd kv, CHR ''}'' # rest)"
      using kv by (intro Cons.prems(3)) simp_all
    then have v: "scan_value m (json_dumps v @ CHR ''}'' # rest) = Some (v, CHR ''}'' # rest)"
      using kv by simp
    have t: "join '', '' (map ?mem (kv # ys)) @ CHR ''}'' # rest =
             CHR 0x22 # tl (json_quote k) @ (CHR '':'' # CHR '' '' # json_dumps v @ CHR ''}'' # rest)"
      using True kv by (simp add: json_quote_def)
    show ?thesis
      unfolding t n using v kv True
      by (simp add: str skip_ws_delim skip_ws_space skip_ws_json_dumps del: scanstring.simps)
  next
    case False
    from False Cons.prems(2) n kv have lx: "length (json_dumps v) \<le> m" and lt: "length ?tail < m"
      by (simp_all add: join_Cons)
    have "scan_value m (json_dumps (snd kv) @ CHR '','' # CHR '' '' # ?tail @ CHR ''}'' # rest) =
             Some (snd kv, CHR '','' # CHR '' '' # ?tail @ CHR ''}'' # rest)"
      using lx kv by (intro Cons.prems(3)) simp_all
    then have v: "scan_value m (json_dumps v @ CHR '','' # CHR '' '' # ?tail @ CHR ''}'' # rest) =
             Some (v, CHR '','' # CHR '' '' # ?tail @ CHR ''}'' # rest)"
      using kv by simp
    have a: "scan_object m (?tail @ CHR ''}'' # rest) = Some (ys, rest)"
      using False lt by (intro Cons.IH Cons.prems(3)) simp_all
    have t: "join '', '' (map ?mem (kv # ys)) @ CHR ''}'' # rest =
             CHR 0x22 # tl (json_quote k) @
               (CHR '':'' # CHR '' '' # json_dumps v @ CHR '','' # CHR '' '' # ?tail @ CHR ''}'' # rest)"
      using False kv by (simp add: join_Cons json_quote_def)
    have sk: "skip_ws (?tail @ CHR ''}'' # rest) = ?tail @ CHR ''}'' # rest"
      using False by (rule skip_ws_join_members)
    show ?thesis
      unfolding t n using v a kv False sk
      by (simp add: str skip_ws_delim skip_ws_space skip_ws_json_dumps del: scanstring.simps)
  qed
qed

lemma dict_put_fresh: "k \<notin> fst ` set kvs \<Longrightarrow> dict_put kvs k v = kvs @ [(k, v)]"
  by (induction kvs) auto

lemma foldl_dict_put:
  "distinct (map fst (acc @ kvs)) \<Longrightarrow>
   foldl (\<lambda>d kv. dict_put d (fst kv) (snd kv)) acc kvs = acc @ kvs"
proof (induction kvs arbitrary: acc)
  case Nil
  then show ?case by simp
next
  case (Cons kv kvs)
  from Cons.prems have "fst kv \<notin> fst ` set acc" by auto
  then have "dict_put acc (fst kv) (snd kv) = acc @ [kv]"
    by (simp add: dict_put_fresh)
  moreover from Cons.prems have "distinct (map fst ((acc @ [kv]) @ kvs))" by simp
  ultimately show ?case using Cons.IH [of "acc @ [kv]"] by simp
qed

lemma join_head:
  assumes "xs \<noteq> []"
  shows "\<exists>c r. join '', '' (map json_dumps xs) @ rest = c # r \<and> c \<noteq> CHR '']''"
proof -
  from assms obtain x ys where xs: "xs = x # ys" by (cases xs) auto
  from json_dumps_head [of x] obtain c r where "json_dumps x = c # r" "c \<noteq> CHR '']''" by blast
  then show ?thesis unfolding xs list.map join_Cons by simp
qed

lemma join_members_head:
  assumes "kvs \<noteq> []"
  shows "\<exists>c r. join '', '' (map (\<lambda>kv. json_quote (fst kv) @ '': '' @ json_dumps (snd kv)) kvs) @ rest = c # r \<and>
           c \<noteq> CHR ''}''"
proof -
  from assms obtain kv ys where kvs: "kvs = kv # ys" by (cases kvs) auto
  show ?thesis unfolding kvs list.map join_Cons by (simp add: json_quote_def)
qed

lemma scan_value_json_dumps:
  "distinct_keys v \<Longrightarrow> length (json_dumps v) \<le> n \<Longrightarrow> delimited rest \<Longrightarrow>
   scan_value n (json_dumps v @ rest) = Some (v, rest)"
proof (induction v arbitrary: n rest)
  case PyNone
  then obtain m where "n = Suc m" by (cases n) auto
  then show ?case using scan_value_atoms(1) [of m rest] by simp
next
  case (PyBool b)
  then obtain m where "n = Suc m" by (cases n; cases b) auto
  then show ?case
    using scan_value_atoms(2) [of m rest] scan_value_atoms(3) [of m rest] by (cases b) simp_all
next
  case (PyInt i)
  from int_str_head [of i] PyInt.prems(2) obtain m where "n = Suc m" by (cases n) auto
  with scan_value_int [OF PyInt.prems(3), of m i] show ?case by simp
next
  case (PyStr s)
  then obtain m where "n = Suc m" by (cases n) (auto simp: json_quote_def)
  with scan_value_str [of m s rest] show ?case by simp
next
  case (PyList xs)
  from PyList.prems(2) obtain m where n: "n = Suc m" by (cases n) auto
  show ?case
  proof (cases "xs = []")
    case True
    with n show ?thesis by (simp add: skip_ws_delim)
  next
    case False
    let ?body = "join '', '' (map json_dumps xs)"
    from PyList.prems(2) n have len: "length ?body < m" by simp
    have elems: "\<And>x n rest. x \<in> set xs \<Longrightarrow> length (json_dumps x) \<le> n \<Longrightarrow> delimited rest \<Longrightarrow>
             scan_value n (json_dumps x @ rest) = Some (x, rest)"
      using PyList.IH PyList.prems(1) by simp
    from scan_array_elems [OF elems False len, of rest]
    have arr: "scan_array m (?body @ CHR '']'' # rest) = Some (xs, rest)" by simp
    from join_head [OF False, of "CHR '']'' # rest"] obtain c r where
      cr: "?body @ CHR '']'' # rest = c # r" and c: "c \<noteq> CHR '']''" by blast
    have sk: "skip_ws (?body @ CHR '']'' # rest) = ?body @ CHR '']'' # rest"
      using False by (rule skip_ws_join)
    have "scan_value (Suc m) (CHR ''['' # ?body @ CHR '']'' # rest) = Some (PyList xs, rest)"
      using arr c sk unfolding cr by simp
    with n show ?thesis by simp
  qed
next
  case (PyDict kvs)
  from PyDict.prems(2) obtain m where n: "n = Suc m" by (cases n) auto
  show ?case
  proof (cases "kvs = []")
    case True
    with n show ?thesis by (simp add: skip_ws_delim)
  next
    case False
    let ?body = "join '', '' (map (\<lambda>kv. json_quote (fst kv) @ '': '' @ json_dumps (snd kv)) kvs)"
    from PyDict.prems(2) n have len: "length ?body < m" by simp
    have members: "\<And>kv n rest. kv \<in> set kvs \<Longrightarrow> length (json_dumps (snd kv)) \<le> n \<Longrightarrow> delimited rest \<Longrightarrow>
             scan_value n (json_dumps (snd kv) @ rest) = Some (snd kv, rest)"
    proof -
      fix kv n rest
      assume a: "kv \<in> set kvs" "length (json_dumps (snd kv)) \<le> n" "delimited rest"
      obtain k v where kv: "kv = (k, v)" by (cases kv)
      with a(1) PyDict.prems(1) have "distinct_keys v" by auto
      with PyDict.IH [of kv v n rest] a kv
      show "scan_value n (json_dumps (snd kv) @ rest) = Some (snd kv, rest)" by simp
    qed
    from scan_object_members [OF members False len, of rest]
    have obj: "scan_object m (?body @ CHR ''}'' # rest) = Some (kvs, rest)" by simp
    from join_members_head [OF False, of "CHR ''}'' # rest"] obtain c r where
      cr: "?body @ CHR ''}'' # rest = c # r" and c: "c \<noteq> CHR ''}''" by blast
    have sk: "skip_ws (?body @ CHR ''}'' # rest) = ?body @ CHR ''}'' # rest"
      using False by (rule skip_ws_join_members)
    from PyDict.prems(1) have "distinct (map fst ([] @ kvs))" by simp
    then have fold: "foldl (\<lambda>d kv. dict_put d (fst kv) (snd kv)) [] kvs = kvs"
      using foldl_dict_put [of "[]" kvs] by simp
    have "scan_value (Suc m) (CHR ''{'' # ?body @ CHR ''}'' # rest) = Some (PyDict kvs, rest)"
      using obj c sk fold unfolding cr by simp
    with n show ?thesis by simp
  qed
qed

lemma json_loads_json_dumps:
  assumes "distinct_keys v"
  shows "json_loads (json_dumps v) = Inr v"
proof -
  have "skip_ws (json_dumps v @ []) = json_dumps v @ []" by (rule skip_ws_json_dumps)
  then have sk: "skip_ws (json_dumps v) = json_dumps v" by simp
  have "scan_value (Suc (length (json_dumps v))) (json_dumps v @ []) = Some (v, [])"
    using assms by (intro scan_value_json_dumps) simp_all
  then have a: "scan_value (Suc (length (json_dumps v))) (skip_ws (json_dumps v)) = Some (v, [])"
    unfolding sk by (simp only: append_Nil2)
  have e: "skip_ws [] = []" by (simp add: skip_ws_def)
  show ?thesis
    unfolding json_loads_def a by (simp only: option.case prod.case e) simp
qed

section \<open>JSON-column coercion: cells and columns\<close>

lemma startswith_bracket: "startswith s ''['' \<longleftrightarrow> (\<exists>r. s = CHR ''['' # r)"
  by (cases s) (auto simp: startswith_def)

lemma json_dumps_list_bracket: "startswith (json_dumps (PyList xs)) ''[''"
  by (simp add: startswith_def)

lemma json_dumps_dict_brace: "\<not> startswith (json_dumps (PyDict kvs)) ''[''"
  by (simp add: startswith_def)

lemma parse_cell_passes:
  "(\<And>s. x = PyStr s \<Longrightarrow> \<not> startswith s ''['') \<Longrightarrow> parse_cell loads x = Inr x"
  by (cases x) (simp_all add: parse_cell_def)

lemma parse_cell_idem:
  assumes contract: "\<And>s v. loads (CHR ''['' # s) = Inr v \<Longrightarrow> \<exists>xs. v = PyList xs"
    and "parse_cell loads x = Inr y"
  shows "parse_cell loads y = Inr y"
proof (cases "\<exists>r. x = PyStr (CHR ''['' # r)")
  case True
  then obtain r where x: "x = PyStr (CHR ''['' # r)" by blast
  with assms(2) have "loads (CHR ''['' # r) = Inr y"
    by (simp add: parse_cell_def startswith_def)
  from contract [OF this] obtain xs where "y = PyList xs" by blast
  then show ?thesis by (simp add: parse_cell_def)
next
  case False
  then have "\<And>s. x = PyStr s \<Longrightarrow> \<not> startswith s ''[''"
    by (auto simp: startswith_bracket)
  then have "parse_cell loads x = Inr x" by (rule parse_cell_passes)
  with assms(2) show ?thesis by simp
qed

lemma apply_cells_Inr:
  "apply_cells f xs = Inr ys \<Longrightarrow> list_all2 (\<lambda>x y. f x = Inr y) xs ys"
  by (induction xs arbitrary: ys) (auto split: sum.splits)

lemma apply_cells_fixed:
  "(\<And>x. x \<in> set xs \<Longrightarrow> f x = Inr x) \<Longrightarrow> apply_cells f xs = Inr xs"
  by (induction xs) auto

lemma apply_cells_parse_fixed:
  assumes contract: "\<And>s v. loads (CHR ''['' # s) = Inr v \<Longrightarrow> \<exists>xs. v = PyList xs"
    and "apply_cells (parse_cell loads) xs = Inr ys"
    and "y \<in> set ys"
  shows "parse_cell loads y = Inr y"
proof -
  from apply_cells_Inr [OF assms(2)] assms(3)
  obtain x where "parse_cell loads x = Inr y"
    by (auto simp: list_all2_conv_all_nth in_set_conv_nth)
  with contract show ?thesis by (rule parse_cell_idem)
qed

lemma columns_Nil [simp]: "columns [] = []"
  by (simp add: columns_def)

lemma columns_Cons [simp]: "columns ((n, cells) # df) = n # columns df"
  by (simp add: columns_def)

lemma set_column_Nil [simp]: "set_column [] col cells = []"
  by (simp add: set_column_def)

lemma set_column_Cons [simp]:
  "set_column ((n, old) # df) col cells =
     (if n = col then (n, cells) else (n, old)) # set_column df col cells"
  by (simp add: set_column_def)

lemma columns_set_column [simp]: "columns (set_column df col cells) = columns df"
  by (induction df) auto

lemma map_of_set_column:
  "map_of (set_column df col cells) c =
     (if c = col \<and> col \<in> set (columns df) then Some cells else map_of df c)"
  by (induction df) auto

lemma get_column_set_column:
  "get_column (set_column df col cells) c =
     (if c = col \<and> col \<in> set (columns df) then cells else get_column df c)"
  by (simp add: get_column_def map_of_set_column)

lemma set_column_absent: "col \<notin> set (columns df) \<Longrightarrow> set_column df col cells = df"
  by (induction df) auto

lemma set_column_same:
  "distinct (columns df) \<Longrightarrow> set_column df col (get_column df col) = df"
proof (induction df)
  case Nil
  then show ?case by simp
next
  case (Cons p df)
  obtain n cells where p: "p = (n, cells)" by (cases p)
  from Cons.prems p have d: "distinct (columns df)" and nin: "n \<notin> set (columns df)"
    by simp_all
  show ?case
  proof (cases "n = col")
    case True
    with nin p show ?thesis
      by (simp add: get_column_def set_column_absent)
  next
    case False
    from Cons.IH [OF d] have "set_column df col (get_column df col) = df" .
    with False p show ?thesis
      by (simp add: get_column_def)
  qed
qed

section \<open>JSON-column coercion: the input table is left as it was\<close>

lemma parse_loop_frame:
  assumes "df < length st"
  shows "length (fst (parse_loop loads st df cols)) = length st \<and>
         (\<forall>i. i \<noteq> df \<longrightarrow> fst (parse_loop loads st df cols) ! i = st ! i) \<and>
         columns (fst (parse_loop loads st df cols) ! df) = columns (st ! df) \<and>
         (\<forall>c. c \<notin> set cols \<longrightarrow>
              map_of (fst (parse_loop loads st df cols) ! df) c = map_of (st ! df) c) \<and>
         (\<forall>d. snd (parse_loop loads st df cols) = Inr d \<longrightarrow> d = df)"
  using assms
proof (induction cols arbitrary: st)
  case Nil
  then show ?case by simp
next
  case (Cons col cols)
  show ?case
  proof (cases "col \<in> set (columns (st ! df))")
    case False
    with Cons.IH [OF Cons.prems] show ?thesis by simp
  next
    case True
    show ?thesis
    proof (cases "apply_cells (parse_cell loads) (get_column (st ! df) col)")
      case (Inl e)
      with True show ?thesis by simp
    next
      case (Inr cells)
      let ?st = "st[df := set_column (st ! df) col cells]"
      from Cons.prems have l: "df < length ?st" by simp
      from Cons.IH [OF l] Cons.prems True Inr show ?thesis
        by (auto simp: map_of_set_column)
    qed
  qed
qed

lemma serialize_loop_frame:
  assumes "df < length st"
  shows "length (fst (serialize_loop st df cols)) = length st \<and>
         (\<forall>i. i \<noteq> df \<longrightarrow> fst (serialize_loop st df cols) ! i = st ! i) \<and>
         columns (fst (serialize_loop st df cols) ! df) = columns (st ! df) \<and>
         (\<forall>c. c \<notin> set cols \<longrightarrow>
              map_of (fst (serialize_loop st df cols) ! df) c = map_of (st ! df) c) \<and>
         snd (serialize_loop st df cols) = df"
  using assms
proof (induction cols arbitrary: st)
  case Nil
  then show ?case by simp
next
  case (Cons col cols)
  show ?case
  proof (cases "col \<in> set (columns (st ! df))")
    case False
    with Cons.IH [OF Cons.prems] show ?thesis by simp
  next
    case True
    let ?st = "st[df := set_column (st ! df) col (map serialize_cell (get_column (st ! df) col))]"
    from Cons.prems have l: "df < length ?st" by simp
    from Cons.IH [OF l] Cons.prems True show ?thesis
      by (auto simp: map_of_set_column)
  qed
qed

lemma take_unchanged:
  assumes "length st' = Suc (length st)" and "\<And>i. i \<noteq> length st \<Longrightarrow> st' ! i = (st @ [x]) ! i"
  shows "take (length st) st' = st"
proof (rule nth_equalityI)
  show "length (take (length st) st') = length st" using assms(1) by simp
next
  fix i assume "i < length (take (length st) st')"
  then have i: "i < length st" by simp
  then have "st' ! i = (st @ [x]) ! i" by (intro assms(2)) simp
  with i show "take (length st) st' ! i = st ! i" by (simp add: nth_append)
qed

text \<open>
  Claim C8.  \<open>parse_json_columns\<close> and \<open>serialize_json_columns\<close> work on a new table and
  leave every table that existed before the call as it was, the input among them, also when
  the decoder raises.  The result is a new reference; it has the columns of the input, and the
  columns that are not listed as JSON columns, or that are listed and absent, hold the cells of
  the input.
\<close>

theorem json_columns_leave_input_unchanged:
  assumes "dataframe < length st"
  shows "take (length st) (fst (parse_json_columns loads st dataframe json_columns)) = st \<and>
         (\<forall>df. snd (parse_json_columns loads st dataframe json_columns) = Inr df \<longrightarrow>
            df = length st \<and>
            columns (fst (parse_json_columns loads st dataframe json_columns) ! df) =
              columns (st ! dataframe) \<and>
            (\<forall>c. c \<notin> set json_columns \<longrightarrow>
               map_of (fst (parse_json_columns loads st dataframe json_columns) ! df) c =
               map_of (st ! dataframe) c)) \<and>
         take (length st) (fst (serialize_json_columns st dataframe json_columns)) = st \<and>
         snd (serialize_json_columns st dataframe json_columns) = length st \<and>
         columns (fst (serialize_json_columns st dataframe json_columns) ! length st) =
           columns (st ! dataframe) \<and>
         (\<forall>c. c \<notin> set json_columns \<longrightarrow>
            map_of (fst (serialize_json_columns st dataframe json_columns) ! length st) c =
            map_of (st ! dataframe) c)"
proof -
  let ?st1 = "st @ [st ! dataframe]"
  have l: "length st < length ?st1" by simp
  note p = parse_loop_frame [OF l, of loads json_columns]
  note s = serialize_loop_frame [OF l, of json_columns]
  have pe: "parse_json_columns loads st dataframe json_columns =
            parse_loop loads ?st1 (length st) json_columns"
    by (simp add: parse_json_columns_def copy_def)
  have se: "serialize_json_columns st dataframe json_columns =
            serialize_loop ?st1 (length st) json_columns"
    by (simp add: serialize_json_columns_def copy_def)
  have t1: "take (length st) (fst (parse_loop loads ?st1 (length st) json_columns)) = st"
    using p by (intro take_unchanged [where x = "st ! dataframe"]) simp_all
  have t2: "take (length st) (fst (serialize_loop ?st1 (length st) json_columns)) = st"
    using s by (intro take_unchanged [where x = "st ! dataframe"]) simp_all
  from p s t1 t2 show ?thesis
    unfolding pe se by (auto simp: nth_append)
qed

section \<open>JSON-column coercion: idempotence and round trip\<close>

lemma parse_loop_noop:
  assumes "df < length st" and "distinct (columns (st ! df))"
    and "\<And>col x. col \<in> set cols \<Longrightarrow> col \<in> set (columns (st ! df)) \<Longrightarrow>
           x \<in> set (get_column (st ! df) col) \<Longrightarrow> parse_cell loads x = Inr x"
  shows "parse_loop loads st df cols = (st, Inr df)"
  using assms(3)
proof (induction cols)
  case Nil
  then show ?case by simp
next
  case (Cons col cols)
  have rest: "parse_loop loads st df cols = (st, Inr df)"
    by (rule Cons.IH) (rule Cons.prems, simp_all)
  show ?case
  proof (cases "col \<in> set (columns (st ! df))")
    case False
    with rest show ?thesis by simp
  next
    case True
    then have "apply_cells (parse_cell loads) (get_column (st ! df) col) = Inr (get_column (st ! df) col)"
      by (intro apply_cells_fixed Cons.prems) simp_all
    moreover have "st[df := set_column (st ! df) col (get_column (st ! df) col)] = st"
      using assms(1,2) by (simp add: set_column_same)
    ultimately show ?thesis using True rest by simp
  qed
qed

lemma parse_loop_parsed:
  assumes contract: "\<And>s v. loads (CHR ''['' # s) = Inr v \<Longrightarrow> \<exists>xs. v = PyList xs"
    and "df < length st"
    and "parse_loop loads st df cols = (st', Inr d)"
    and "\<And>col x. col \<in> done \<Longrightarrow> col \<in> set (columns (st ! df)) \<Longrightarrow>
           x \<in> set (get_column (st ! df) col) \<Longrightarrow> parse_cell loads x = Inr x"
    and "col \<in> done \<union> set cols" and "col \<in> set (columns (st' ! df))"
    and "x \<in> set (get_column (st' ! df) col)"
  shows "parse_cell loads x = Inr x"
  using assms(2-)
proof (induction cols arbitrary: st "done")
  case Nil
  then show ?case by auto
next
  case (Cons c cols)
  show ?case
  proof (cases "c \<in> set (columns (st ! df))")
    case False
    with Cons.prems(2) have run: "parse_loop loads st df cols = (st', Inr d)" by simp
    have absent: "c \<notin> set (columns (st' ! df))"
      using parse_loop_frame [OF Cons.prems(1), of loads cols] run False by simp
    with Cons.prems(5) have "col \<noteq> c" by auto
    with Cons.prems(4) have "col \<in> done \<union> set cols" by auto
    from Cons.IH [OF Cons.prems(1) run Cons.prems(3) this Cons.prems(5) Cons.prems(6)]
    show ?thesis by simp
  next
    case True
    with Cons.prems(2) obtain cells where
      ap: "apply_cells (parse_cell loads) (get_column (st ! df) c) = Inr cells"
      and run: "parse_loop loads (st[df := set_column (st ! df) c cells]) df cols = (st', Inr d)"
      by (auto split: sum.splits)
    let ?st = "st[df := set_column (st ! df) c cells]"
    from Cons.prems(1) have l: "df < length ?st" by simp
    have inv: "\<And>col x. col \<in> insert c done \<Longrightarrow> col \<in> set (columns (?st ! df)) \<Longrightarrow>
           x \<in> set (get_column (?st ! df) col) \<Longrightarrow> parse_cell loads x = Inr x"
    proof -
      fix col' x'
      assume a: "col' \<in> insert c done" "col' \<in> set (columns (?st ! df))"
        "x' \<in> set (get_column (?st ! df) col')"
      show "parse_cell loads x' = Inr x'"
      proof (cases "col' = c")
        case True
        with a(3) Cons.prems(1) \<open>c \<in> set (columns (st ! df))\<close> have "x' \<in> set cells"
          by (simp add: get_column_set_column)
        from apply_cells_parse_fixed [OF contract ap this] show ?thesis .
      next
        case False
        with a Cons.prems(1) have "col' \<in> done" "col' \<in> set (columns (st ! df))"
          "x' \<in> set (get_column (st ! df) col')"
          by (simp_all add: get_column_set_column)
        then show ?thesis by (rule Cons.prems(3))
      qed
    qed
    from Cons.prems(4) have "col \<in> insert c done \<union> set cols" by auto
    from Cons.IH [OF l run inv this Cons.prems(5) Cons.prems(6)]
    show ?thesis by simp
  qed
qed

lemma parse_json_columns_idem:
  assumes contract: "\<And>s v. loads (CHR ''['' # s) = Inr v \<Longrightarrow> \<exists>xs. v = PyList xs"
    and "dataframe < length st"
    and "distinct (columns (st ! dataframe))"
    and "parse_json_columns loads st dataframe json_columns = (st1, Inr d1)"
  shows "parse_json_columns loads st1 d1 json_columns = (st1 @ [st1 ! d1], Inr (length st1))"
proof -
  let ?st0 = "st @ [st ! dataframe]"
  have l: "length st < length ?st0" by simp
  from assms(4) have run: "parse_loop loads ?st0 (length st) json_columns = (st1, Inr d1)"
    by (simp add: parse_json_columns_def copy_def)
  note fr = parse_loop_frame [OF l, of loads json_columns, unfolded run]
  from fr have d1: "d1 = length st" and len: "length st1 = Suc (length st)"
    and cols: "columns (st1 ! length st) = columns (st ! dataframe)"
    by simp_all
  have parsed: "\<And>col x. col \<in> set json_columns \<Longrightarrow> col \<in> set (columns (st1 ! length st)) \<Longrightarrow>
      x \<in> set (get_column (st1 ! length st) col) \<Longrightarrow> parse_cell loads x = Inr x"
  proof -
    fix col x
    assume a: "col \<in> set json_columns" "col \<in> set (columns (st1 ! length st))"
      "x \<in> set (get_column (st1 ! length st) col)"
    have e: "\<And>col x. col \<in> {} \<Longrightarrow> col \<in> set (columns (?st0 ! length st)) \<Longrightarrow>
           x \<in> set (get_column (?st0 ! length st) col) \<Longrightarrow> parse_cell loads x = Inr x"
      by simp
    from a(1) have m: "col \<in> {} \<union> set json_columns" by simp
    from parse_loop_parsed [OF contract l run e m a(2) a(3)]
    show "parse_cell loads x = Inr x" by simp
  qed
  let ?st2 = "st1 @ [st1 ! d1]"
  have l2: "length st1 < length ?st2" by simp
  have dist: "distinct (columns (?st2 ! length st1))"
    using cols assms(3) d1 by simp
  have "parse_loop loads ?st2 (length st1) json_columns = (?st2, Inr (length st1))"
  proof (rule parse_loop_noop [OF l2 dist])
    fix col x
    assume "col \<in> set json_columns" "col \<in> set (columns (?st2 ! length st1))"
      "x \<in> set (get_column (?st2 ! length st1) col)"
    then show "parse_cell loads x = Inr x"
      using parsed [of col x] d1 by simp
  qed
  then show ?thesis
    by (simp add: parse_json_columns_def copy_def)
qed

lemma serialize_cell_scalar: "is_scalar x \<Longrightarrow> serialize_cell x = x"
  by (cases x) (simp_all add: is_scalar_def serialize_cell_def)

lemma parse_serialize_list:
  "parse_cell loads (serialize_cell (PyList xs)) = loads (json_dumps (PyList xs))"
  using json_dumps_list_bracket [of xs]
  by (simp add: parse_cell_def serialize_cell_def del: json_dumps.simps)

lemma parse_serialize_dict:
  "parse_cell loads (serialize_cell (PyDict kvs)) = Inr (PyStr (json_dumps (PyDict kvs)))"
  using json_dumps_dict_brace [of kvs]
  by (simp add: parse_cell_def serialize_cell_def del: json_dumps.simps)

text \<open>
  Claim C3, amended.  For a decoder that returns a list whenever it accepts a text that starts
  with \<open>[\<close>: parsing a parsed cell changes nothing, and parsing a parsed table, whose labels
  are distinct, gives a copy equal to it; parsing the serialization of a list is decoding its
  JSON text, hence gives the list back when the decoder inverts the encoder on it, as the
  reference decoder does on every list; the serialization of a mapping starts with \<open>{\<close>, so
  parsing it returns the JSON text and not the mapping; a scalar is serialized to itself, and
  a scalar that is not a string starting with \<open>[\<close> is parsed to itself.
\<close>

theorem json_column_round_trip:
  assumes contract: "\<And>s v. loads (CHR ''['' # s) = Inr v \<Longrightarrow> \<exists>xs. v = PyList xs"
  shows "(parse_cell loads x = Inr y \<longrightarrow> parse_cell loads y = Inr y) \<and>
         (dataframe < length st \<and> distinct (columns (st ! dataframe)) \<and>
          parse_json_columns loads st dataframe json_columns = (st1, Inr d1) \<longrightarrow>
            parse_json_columns loads st1 d1 json_columns = (st1 @ [st1 ! d1], Inr (length st1))) \<and>
         parse_cell loads (serialize_cell (PyList xs)) = loads (json_dumps (PyList xs)) \<and>
         (loads (json_dumps (PyList xs)) = Inr (PyList xs) \<longrightarrow>
            parse_cell loads (serialize_cell (PyList xs)) = Inr (PyList xs)) \<and>
         parse_cell loads (serialize_cell (PyDict kvs)) = Inr (PyStr (json_dumps (PyDict kvs))) \<and>
         (is_scalar z \<longrightarrow> serialize_cell z = z) \<and>
         (is_scalar z \<and> (\<forall>s. z = PyStr s \<longrightarrow> \<not> startswith s ''['') \<longrightarrow> parse_cell loads z = Inr z) \<and>
         (distinct_keys (PyList xs) \<longrightarrow>
            parse_cell json_loads (serialize_cell (PyList xs)) = Inr (PyList xs))"
proof (intro conjI impI)
  assume "distinct_keys (PyList xs)"
  then have "json_loads (json_dumps (PyList xs)) = Inr (PyList xs)"
    by (rule json_loads_json_dumps)
  then show "parse_cell json_loads (serialize_cell (PyList xs)) = Inr (PyList xs)"
    by (simp only: parse_serialize_list)
next
  assume "parse_cell loads x = Inr y"
  with contract show "parse_cell loads y = Inr y" by (rule parse_cell_idem)
next
  assume "dataframe < length st \<and> distinct (columns (st ! dataframe)) \<and>
          parse_json_columns loads st dataframe json_columns = (st1, Inr d1)"
  then have a: "dataframe < length st" and b: "distinct (columns (st ! dataframe))"
    and c: "parse_json_columns loads st dataframe json_columns = (st1, Inr d1)"
    by simp_all
  from contract a b c
  show "parse_json_columns loads st1 d1 json_columns = (st1 @ [st1 ! d1], Inr (length st1))"
    by (rule parse_json_columns_idem)
next
  show "parse_cell loads (serialize_cell (PyList xs)) = loads (json_dumps (PyList xs))"
    by (rule parse_serialize_list)
next
  assume "loads (json_dumps (PyList xs)) = Inr (PyList xs)"
  then show "parse_cell loads (serialize_cell (PyList xs)) = Inr (PyList xs)"
    by (simp only: parse_serialize_list)
next
  show "parse_cell loads (serialize_cell (PyDict kvs)) = Inr (PyStr (json_dumps (PyDict kvs)))"
    by (rule parse_serialize_dict)
next
  assume "is_scalar z"
  then show "serialize_cell z = z" by (rule serialize_cell_scalar)
next
  assume "is_scalar z \<and> (\<forall>s. z = PyStr s \<longrightarrow> \<not> startswith s ''['')"
  then have "\<And>s. z = PyStr s \<Longrightarrow> \<not> startswith s ''[''" by simp
  then show "parse_cell loads z = Inr z"
    by (rule parse_cell_passes)
qed

lemma json_loads_bracket:
  assumes "json_loads (CHR ''['' # s) = Inr v"
  shows "\<exists>xs. v = PyList xs"
proof -
  have "skip_ws (CHR ''['' # s) = CHR ''['' # s"
    by (simp add: skip_ws_def is_ws_def)
  with assms show ?thesis
    by (auto simp: json_loads_def split: option.splits list.splits if_splits)
qed

theorem json_round_trip_mapping_counterexample:
  "parse_cell json_loads (serialize_cell (PyDict [(''a'', PyInt 1)])) \<noteq> Inr (PyDict [(''a'', PyInt 1)])"
  by code_simp

lemma sample_parse:
  "parse_json_columns json_loads [sample_frame] 0 [''skills'', ''absent''] =
     ([sample_frame,
       [(''id'', [PyInt 1, PyInt 2]),
        (''name'', [PyStr ''Smith'', PyStr ''Jones'']),
        (''skills'', [PyList [PyStr ''Algebra'', PyStr ''Logic''], PyList []]),
        (''notes'', [PyDict [(''a'', PyInt 1)], PyNone])]], Inr 1)"
  by code_simp

theorem json_column_round_trip_witness:
  "parse_cell json_loads (PyList [PyInt 1, PyInt 2]) = Inr (PyList [PyInt 1, PyInt 2]) \<and>
   parse_json_columns json_loads
     [sample_frame,
       [(''id'', [PyInt 1, PyInt 2]),
        (''name'', [PyStr ''Smith'', PyStr ''Jones'']),
        (''skills'', [PyList [PyStr ''Algebra'', PyStr ''Logic''], PyList []]),
        (''notes'', [PyDict [(''a'', PyInt 1)], PyNone])]] 1 [''skills'', ''absent''] =
     ([sample_frame,
       [(''id'', [PyInt 1, PyInt 2]),
        (''name'', [PyStr ''Smith'', PyStr ''Jones'']),
        (''skills'', [PyList [PyStr ''Algebra'', PyStr ''Logic''], PyList []]),
        (''notes'', [PyDict [(''a'', PyInt 1)], PyNone])],
       [(''id'', [PyInt 1, PyInt 2]),
        (''name'', [PyStr ''Smith'', PyStr ''Jones'']),
        (''skills'', [PyList [PyStr ''Algebra'', PyStr ''Logic''], PyList []]),
        (''notes'', [PyDict [(''a'', PyInt 1)], PyNone])]], Inr 2) \<and>
   parse_cell json_loads (serialize_cell (PyList [PyInt 1, PyStr ''a'', PyList []])) =
     Inr (PyList [PyInt 1, PyStr ''a'', PyList []]) \<and>
   parse_cell json_loads (serialize_cell (PyDict [(''a'', PyInt 1)])) =
     Inr (PyStr (json_dumps (PyDict [(''a'', PyInt 1)]))) \<and>
   serialize_cell (PyInt 5) = PyInt 5 \<and>
   parse_cell json_loads (PyStr ''Smith'') = Inr (PyStr ''Smith'')"
proof -
  have c: "\<And>s v. json_loads (CHR ''['' # s) = Inr v \<Longrightarrow> \<exists>xs. v = PyList xs"
    by (rule json_loads_bracket)
  have h1: "parse_cell json_loads (PyStr ''[1, 2]'') = Inr (PyList [PyInt 1, PyInt 2])"
    by code_simp
  have h2: "0 < length [sample_frame]" by simp
  have h3: "distinct (columns ([sample_frame] ! 0))"
    by (simp add: sample_frame_def columns_def)
  have h4: "json_loads (json_dumps (PyList [PyInt 1, PyStr ''a'', PyList []])) =
            Inr (PyList [PyInt 1, PyStr ''a'', PyList []])"
    by code_simp
  have h5: "is_scalar (PyInt 5)" by (simp add: is_scalar_def)
  have h6: "is_scalar (PyStr ''Smith'') \<and> (\<forall>s. PyStr ''Smith'' = PyStr s \<longrightarrow> \<not> startswith s ''['')"
    by (simp add: is_scalar_def startswith_def)
  note t1 = json_column_round_trip [where loads = json_loads and x = "PyStr ''[1, 2]''"
      and y = "PyList [PyInt 1, PyInt 2]" and dataframe = 0 and st = "[sample_frame]"
      and json_columns = "[''skills'', ''absent'']" and xs = "[PyInt 1, PyStr ''a'', PyList []]"
      and kvs = "[(''a'', PyInt 1)]" and z = "PyInt 5", OF c]
  note t2 = json_column_round_trip [where loads = json_loads and z = "PyStr ''Smith''", OF c]
  from t1 t2 h1 h2 h3 h4 h5 h6 sample_parse
  show ?thesis by (simp del: json_dumps.simps)
qed

theorem json_columns_leave_input_unchanged_witness:
  "take 1 (fst (parse_json_columns json_loads [sample_frame] 0 [''skills'', ''absent''])) = [sample_frame] \<and>
   snd (parse_json_columns json_loads [sample_frame] 0 [''skills'', ''absent'']) = Inr 1 \<and>
   map_of (fst (parse_json_columns json_loads [sample_frame] 0 [''skills'', ''absent'']) ! 1) ''name'' =
     map_of sample_frame ''name'' \<and>
   take 1 (fst (serialize_json_columns [sample_frame] 0 [''notes''])) = [sample_frame] \<and>
   snd (serialize_json_columns [sample_frame] 0 [''notes'']) = 1 \<and>
   map_of (fst (serialize_json_columns [sample_frame] 0 [''notes'']) ! 1) ''skills'' =
     map_of sample_frame ''skills''"
proof -
  have h: "0 < length [sample_frame]" by simp
  note t1 = json_columns_leave_input_unchanged
      [where dataframe = 0 and st = "[sample_frame]" and loads = json_loads
         and json_columns = "[''skills'', ''absent'']", OF h]
  note t2 = json_columns_leave_input_unchanged
      [where dataframe = 0 and st = "[sample_frame]" and loads = json_loads
         and json_columns = "[''notes'']", OF h]
  have s: "snd (parse_json_columns json_loads [sample_frame] 0 [''skills'', ''absent'']) = Inr 1"
    by (simp add: sample_parse)
  from t1 t2 s show ?thesis by simp
qed

end
